theory Spec2Isabelle
  imports Complex_Main "HOL-Library.AList" "HOL-Library.List_Lexorder" "HOL-Library.Char_ord"
begin

section \<open>Python values and exceptions\<close>

text \<open>
  The exceptions that the modelled code can meet. \<open>ConnectError\<close>, \<open>ReadTimeout\<close>,
  \<open>WriteTimeout\<close> and \<open>HTTPStatusError\<close> are the classes named in \<open>YouTubeClient._get\<close>.
  \<open>ConnectTimeout\<close> and \<open>PoolTimeout\<close> are the two other timeouts of the HTTP library: like
  \<open>ReadTimeout\<close> and \<open>WriteTimeout\<close> they are subclasses of \<open>TimeoutException\<close>, and neither is
  a subclass of \<open>ConnectError\<close>, so no handler of \<open>_get\<close> catches them. \<open>OtherTransportError\<close>
  stands for anything else the HTTP client may raise. The others are built-in exceptions.
\<close>

datatype exn =
    ConnectError | ConnectTimeout | ReadTimeout | WriteTimeout | PoolTimeout | HTTPStatusError
  | OtherTransportError
  | JSONDecodeError | KeyError | TypeError | AttributeError | IndexError | ValueError
  | OverflowError

text \<open>A decoded JSON document; an object is the list of its items, first binding of a key wins.\<close>

datatype json =
    JNull | JBool bool | JNum int | JStr string | JArr "json list" | JObj "(string \<times> json) list"

text \<open>Python truth value of a decoded JSON value.\<close>

fun truthy :: "json \<Rightarrow> bool" where
  "truthy JNull = False"
| "truthy (JBool b) = b"
| "truthy (JNum n) = (n \<noteq> 0)"
| "truthy (JStr s) = (s \<noteq> [])"
| "truthy (JArr xs) = (xs \<noteq> [])"
| "truthy (JObj kvs) = (kvs \<noteq> [])"

text \<open>\<open>x.get(k, d)\<close>: only a dict has the method.\<close>

fun py_get :: "json \<Rightarrow> string \<Rightarrow> json \<Rightarrow> exn + json" where
  "py_get (JObj kvs) k d = Inr (case map_of kvs k of None \<Rightarrow> d | Some v \<Rightarrow> v)"
| "py_get _ k d = Inl AttributeError"

text \<open>\<open>x[0]\<close>.\<close>

fun py_index0 :: "json \<Rightarrow> exn + json" where
  "py_index0 (JArr []) = Inl IndexError"
| "py_index0 (JArr (x # xs)) = Inr x"
| "py_index0 (JStr []) = Inl IndexError"
| "py_index0 (JStr (c # cs)) = Inr (JStr [c])"
| "py_index0 (JObj kvs) = Inl KeyError"
| "py_index0 _ = Inl TypeError"

text \<open>\<open>x[k]\<close> for a string key \<open>k\<close>.\<close>

fun py_item :: "json \<Rightarrow> string \<Rightarrow> exn + json" where
  "py_item (JObj kvs) k = (case map_of kvs k of None \<Rightarrow> Inl KeyError | Some v \<Rightarrow> Inr v)"
| "py_item _ k = Inl TypeError"

text \<open>\<open>a or b\<close>.\<close>

definition py_or :: "json \<Rightarrow> json \<Rightarrow> json" where
  "py_or a b = (if truthy a then a else b)"

section \<open>The HTTP client with key rotation (\<open>app/youtube_client.py\<close>)\<close>

text \<open>
  A response as \<open>_get\<close> reads it: the status code and the body, \<open>None\<close> when the body
  is not JSON (\<open>r.json()\<close> raises).
\<close>

record response =
  status_code :: int
  body :: "json option"

datatype outcome = Returns response | Raises exn

text \<open>The query parameters: the values are what the code puts there, strings, the number 1,
  or whatever the response held as the broadcast id.\<close>

type_synonym params = "(string \<times> json) list"

text \<open>
  The network is an oracle: the outcome of the \<open>n\<close>-th request the client has issued
  (counted from 0 over the client's life), given its URL and its query parameters.
\<close>

type_synonym net = "nat \<Rightarrow> string \<Rightarrow> params \<Rightarrow> outcome"

text \<open>What can be observed of a call: requests with the index of the key used, sleeps, rotations.\<close>

datatype event = Request nat | Sleep rat | Rotate nat

record client =
  keys :: "string list"
  key_index :: nat
  requests :: nat
  events :: "event list"

text \<open>\<open>YouTubeClient.__init__\<close> for a list of keys: empty keys are dropped, no key is an error.\<close>

definition init_client :: "string list \<Rightarrow> exn + client" where
  "init_client api_keys =
     (let ks = filter (\<lambda>k. k \<noteq> []) api_keys
      in if ks = [] then Inl ValueError
         else Inr \<lparr>keys = ks, key_index = 0, requests = 0, events = []\<rparr>)"

definition api_key :: "client \<Rightarrow> string" where
  "api_key cl = keys cl ! key_index cl"

definition advance_key :: "client \<Rightarrow> client" where
  "advance_key cl =
     (if length (keys cl) > 1
      then (let i = (key_index cl + 1) mod length (keys cl)
            in cl\<lparr>key_index := i, events := events cl @ [Rotate i]\<rparr>)
      else cl)"

text \<open>
  Lines 62-66 of \<open>_get\<close>: the set of reasons of a 403 body, empty when anything raises
  (the body is not JSON, \<open>.get\<close> on a non-dict, iterating a non-iterable, an unhashable
  reason). Iterating a dict or a string yields strings, which the \<open>isinstance\<close> filter drops.
\<close>

fun hashable :: "json \<Rightarrow> bool" where
  "hashable (JArr xs) = False"
| "hashable (JObj kvs) = False"
| "hashable _ = True"

fun is_dict :: "json \<Rightarrow> bool" where
  "is_dict (JObj kvs) = True"
| "is_dict _ = False"

fun reason_of :: "json \<Rightarrow> json" where
  "reason_of (JObj kvs) = (case map_of kvs ''reason'' of None \<Rightarrow> JNull | Some v \<Rightarrow> v)"
| "reason_of _ = JNull"

fun iter_reasons :: "json \<Rightarrow> json list" where
  "iter_reasons (JArr xs) =
     (let rs = map reason_of (filter is_dict xs)
      in if list_all hashable rs then rs else [])"
| "iter_reasons _ = []"

definition reasons :: "response \<Rightarrow> json list" where
  "reasons r =
     (case body r of
        None \<Rightarrow> []
      | Some data \<Rightarrow>
          (case py_get data ''error'' (JObj []) of
             Inl e \<Rightarrow> []
           | Inr err \<Rightarrow>
               (case py_get err ''errors'' (JArr []) of
                  Inl e \<Rightarrow> []
                | Inr errs \<Rightarrow> iter_reasons errs)))"

definition quota_reasons :: "string list" where
  "quota_reasons = [''quotaExceeded'', ''dailyLimitExceeded'', ''rateLimitExceeded'', ''keyInvalid'']"

definition quota_rejection :: "response \<Rightarrow> bool" where
  "quota_rejection r \<longleftrightarrow>
     status_code r = 403 \<and> list_ex (\<lambda>q. JStr q \<in> set (reasons r)) quota_reasons"

text \<open>\<open>r.raise_for_status()\<close> of the HTTP library raises for every status outside 2xx.\<close>

definition raises_for_status :: "response \<Rightarrow> bool" where
  "raises_for_status r \<longleftrightarrow> \<not> (200 \<le> status_code r \<and> status_code r < 300)"

definition transient :: "exn \<Rightarrow> bool" where
  "transient e \<longleftrightarrow> e = ConnectError \<or> e = ReadTimeout \<or> e = WriteTimeout"

text \<open>How the inner \<open>for attempt in range(retries)\<close> loop is left.\<close>

datatype attempt_exit =
    Return "response option"   \<comment> \<open>a \<open>return\<close> inside the loop\<close>
  | Raise exn                   \<comment> \<open>an exception no handler of the loop catches\<close>
  | Break                       \<comment> \<open>the key was rotated: \<open>break\<close>\<close>
  | Exhausted                   \<comment> \<open>the range ran out: the \<open>else\<close> branch of the \<open>for\<close>\<close>

text \<open>
  The inner loop with \<open>left\<close> iterations still to run, so \<open>attempt = retries - left\<close> and
  \<open>attempt == retries - 1\<close> is \<open>left = 1\<close>. The delay is a float in the source; it only
  takes the values \<open>0.5 * 2 ^ k\<close>, which binary floating point holds exactly below
  \<open>2 ^ 1024\<close>, and is a rational here.
\<close>

fun attempts :: "net \<Rightarrow> string \<Rightarrow> params \<Rightarrow> nat \<Rightarrow> rat \<Rightarrow> client \<Rightarrow> attempt_exit \<times> rat \<times> client" where
  "attempts nt url pk 0 delay cl = (Exhausted, delay, cl)"
| "attempts nt url pk (Suc left) delay cl =
     (let cl1 = cl\<lparr>requests := Suc (requests cl), events := events cl @ [Request (key_index cl)]\<rparr>
      in case nt (requests cl) url pk of
           Returns r \<Rightarrow>
             if quota_rejection r then (Break, delay, advance_key cl1)
             else if raises_for_status r then (Return None, delay, cl1)
             else (Return (Some r), delay, cl1)
         | Raises e \<Rightarrow>
             if transient e then
               (if left = 0 then (Return None, delay, cl1)
                else attempts nt url pk left (delay * 2) (cl1\<lparr>events := events cl1 @ [Sleep delay]\<rparr>))
             else if e = HTTPStatusError then (Return None, delay, cl1)
             else (Raise e, delay, cl1))"

text \<open>
  The outer \<open>while keys_tried < len(self._keys)\<close> loop with \<open>todo = len(self._keys) - keys_tried\<close>
  iterations still allowed.
\<close>

fun key_loop :: "net \<Rightarrow> string \<Rightarrow> params \<Rightarrow> int \<Rightarrow> nat \<Rightarrow> rat \<Rightarrow> client \<Rightarrow> (exn + response option) \<times> client" where
  "key_loop nt url ps retries 0 delay cl = (Inr None, cl)"
| "key_loop nt url ps retries (Suc todo) delay cl =
     (let params_with_key = AList.update ''key'' (JStr (api_key cl)) ps
      in case attempts nt url params_with_key (nat retries) delay cl of
           (Return res, d, cl') \<Rightarrow> (Inr res, cl')
         | (Raise e, d, cl') \<Rightarrow> (Inl e, cl')
         | (Exhausted, d, cl') \<Rightarrow> (Inr None, cl')
         | (Break, d, cl') \<Rightarrow> key_loop nt url ps retries todo d cl')"

definition get :: "net \<Rightarrow> string \<Rightarrow> params \<Rightarrow> int \<Rightarrow> client \<Rightarrow> (exn + response option) \<times> client" where
  "get nt url ps retries cl = key_loop nt url ps retries (length (keys cl)) (1 / 2) cl"

section \<open>The resolver (\<open>app/youtube_client.py\<close>)\<close>

text \<open>
  Strings are UTF-8 byte sequences. \<open>len\<close> counts code points, that is the bytes that
  are not continuation bytes; \<open>strip\<close> removes the encodings of the code points for which
  \<open>str.isspace\<close> holds.
\<close>

definition continuation :: "char \<Rightarrow> bool" where
  "continuation c \<longleftrightarrow> 128 \<le> (of_char c :: nat) \<and> (of_char c :: nat) < 192"

definition py_len :: "string \<Rightarrow> nat" where
  "py_len s = length (filter (\<lambda>c. \<not> continuation c) s)"

definition whitespace :: "string list" where
  "whitespace =
     [[CHR 0x09], [CHR 0x0A], [CHR 0x0B], [CHR 0x0C], [CHR 0x0D], [CHR 0x1C], [CHR 0x1D],
      [CHR 0x1E], [CHR 0x1F], [CHR 0x20], [CHR 0xC2, CHR 0x85], [CHR 0xC2, CHR 0xA0],
      [CHR 0xE1, CHR 0x9A, CHR 0x80], [CHR 0xE2, CHR 0x80, CHR 0x80],
      [CHR 0xE2, CHR 0x80, CHR 0x81], [CHR 0xE2, CHR 0x80, CHR 0x82],
      [CHR 0xE2, CHR 0x80, CHR 0x83], [CHR 0xE2, CHR 0x80, CHR 0x84],
      [CHR 0xE2, CHR 0x80, CHR 0x85], [CHR 0xE2, CHR 0x80, CHR 0x86],
      [CHR 0xE2, CHR 0x80, CHR 0x87], [CHR 0xE2, CHR 0x80, CHR 0x88],
      [CHR 0xE2, CHR 0x80, CHR 0x89], [CHR 0xE2, CHR 0x80, CHR 0x8A],
      [CHR 0xE2, CHR 0x80, CHR 0xA8], [CHR 0xE2, CHR 0x80, CHR 0xA9],
      [CHR 0xE2, CHR 0x80, CHR 0xAF], [CHR 0xE2, CHR 0x81, CHR 0x9F],
      [CHR 0xE3, CHR 0x80, CHR 0x80]]"

text \<open>\<open>s\<close> without the prefix \<open>p\<close>, when it has it.\<close>

fun drop_prefix :: "string \<Rightarrow> string \<Rightarrow> string option" where
  "drop_prefix [] s = Some s"
| "drop_prefix (p # ps) [] = None"
| "drop_prefix (p # ps) (c # cs) = (if p = c then drop_prefix ps cs else None)"

definition startswith :: "string \<Rightarrow> string \<Rightarrow> bool" where
  "startswith s p \<longleftrightarrow> drop_prefix p s \<noteq> None"

text \<open>One leading whitespace character removed, if there is one.\<close>

definition drop_space :: "string \<Rightarrow> string option" where
  "drop_space s = (case List.map_filter (\<lambda>w. drop_prefix w s) whitespace of [] \<Rightarrow> None | r # rs \<Rightarrow> Some r)"

fun lstrip_fuel :: "nat \<Rightarrow> string \<Rightarrow> string" where
  "lstrip_fuel 0 s = s"
| "lstrip_fuel (Suc n) s = (case drop_space s of None \<Rightarrow> s | Some r \<Rightarrow> lstrip_fuel n r)"

definition lstrip :: "string \<Rightarrow> string" where
  "lstrip s = lstrip_fuel (length s) s"

definition drop_space_end :: "string \<Rightarrow> string option" where
  "drop_space_end s =
     (case List.map_filter (\<lambda>w. drop_prefix (rev w) (rev s)) whitespace of
        [] \<Rightarrow> None | r # rs \<Rightarrow> Some (rev r))"

fun rstrip_fuel :: "nat \<Rightarrow> string \<Rightarrow> string" where
  "rstrip_fuel 0 s = s"
| "rstrip_fuel (Suc n) s = (case drop_space_end s of None \<Rightarrow> s | Some r \<Rightarrow> rstrip_fuel n r)"

definition rstrip :: "string \<Rightarrow> string" where
  "rstrip s = rstrip_fuel (length s) s"

definition strip :: "string \<Rightarrow> string" where
  "strip s = rstrip (lstrip s)"

text \<open>
  The pattern \<open>https?://(www\.)?youtube\.com/(channel/|@)([A-Za-z0-9_\-\.]+)\<close>. Each optional
  part and each alternative starts with a character the part after it cannot start with, so
  matching at a position needs no backtracking; the last group is greedy.
\<close>

definition hint_char :: "char \<Rightarrow> bool" where
  "hint_char c \<longleftrightarrow>
     (let n = (of_char c :: nat)
      in (65 \<le> n \<and> n \<le> 90) \<or> (97 \<le> n \<and> n \<le> 122) \<or> (48 \<le> n \<and> n \<le> 57)
         \<or> c = CHR ''_'' \<or> c = CHR ''-'' \<or> c = CHR ''.'')"

definition optional :: "string \<Rightarrow> string \<Rightarrow> string" where
  "optional p s = (case drop_prefix p s of None \<Rightarrow> s | Some r \<Rightarrow> r)"

definition match_here :: "string \<Rightarrow> string option" where
  "match_here s =
     (case drop_prefix ''http'' s of
        None \<Rightarrow> None
      | Some s1 \<Rightarrow>
          (case drop_prefix ''://'' (optional ''s'' s1) of
             None \<Rightarrow> None
           | Some s2 \<Rightarrow>
               (case drop_prefix ''youtube.com/'' (optional ''www.'' s2) of
                  None \<Rightarrow> None
                | Some s3 \<Rightarrow>
                    (case (case drop_prefix ''channel/'' s3 of
                             None \<Rightarrow> drop_prefix ''@'' s3 | Some r \<Rightarrow> Some r) of
                       None \<Rightarrow> None
                     | Some s4 \<Rightarrow>
                         (if takeWhile hint_char s4 = [] then None
                          else Some (takeWhile hint_char s4))))))"

text \<open>\<open>re.search\<close>: the match at the leftmost position that has one; its third group.\<close>

fun re_search :: "string \<Rightarrow> string option" where
  "re_search [] = match_here []"
| "re_search (c # cs) = (case match_here (c # cs) of None \<Rightarrow> re_search cs | Some g \<Rightarrow> Some g)"

definition extract_channel_hint :: "string \<Rightarrow> string option" where
  "extract_channel_hint text = re_search (strip text)"

text \<open>
  \<open>LiveInfo\<close>. The data class annotates its fields \<open>str\<close> and \<open>Optional[str]\<close>, and
  Python does not check annotations: a field holds whatever value the response held at that
  place, \<open>JNull\<close> for \<open>None\<close>.
\<close>

record live_info =
  channel_id :: string
  channel_title :: json
  video_id :: json
  video_title :: json
  scheduled_start_time :: json

definition bind :: "exn + 'a \<Rightarrow> ('a \<Rightarrow> exn + 'b) \<Rightarrow> exn + 'b" where
  "bind m f = (case m of Inl e \<Rightarrow> Inl e | Inr x \<Rightarrow> f x)"

text \<open>\<open>r.json().get("items", [])\<close>.\<close>

definition items_of :: "response \<Rightarrow> exn + json" where
  "items_of r =
     (case body r of None \<Rightarrow> Inl JSONDecodeError | Some j \<Rightarrow> py_get j ''items'' (JArr []))"

definition search_url :: string where
  "search_url = ''https://www.googleapis.com/youtube/v3/search''"

definition channels_url :: string where
  "channels_url = ''https://www.googleapis.com/youtube/v3/channels''"

definition videos_url :: string where
  "videos_url = ''https://www.googleapis.com/youtube/v3/videos''"

text \<open>\<open>resolve_channel_id\<close>; the result \<open>None\<close> is \<open>JNull\<close>.\<close>

definition resolve_channel_id :: "net \<Rightarrow> client \<Rightarrow> string \<Rightarrow> (exn + json) \<times> client" where
  "resolve_channel_id nt cl identifier_or_url =
     (let hint = (case extract_channel_hint identifier_or_url of
                    None \<Rightarrow> strip identifier_or_url | Some h \<Rightarrow> h)
      in if startswith hint ''UC'' \<and> py_len hint \<ge> 20 then (Inr (JStr hint), cl)
         else
           (case get nt search_url
                   [(''part'', JStr ''snippet''), (''q'', JStr hint), (''type'', JStr ''channel''),
                    (''maxResults'', JNum 1), (''key'', JStr (api_key cl))] 3 cl of
              (Inl e, cl') \<Rightarrow> (Inl e, cl')
            | (Inr None, cl') \<Rightarrow> (Inr JNull, cl')
            | (Inr (Some r), cl') \<Rightarrow>
                (case items_of r of
                   Inl e \<Rightarrow> (Inl e, cl')
                 | Inr items \<Rightarrow>
                     if \<not> truthy items then (Inr JNull, cl')
                     else (bind (py_index0 items) (\<lambda>i. bind (py_item i ''snippet'')
                            (\<lambda>s. py_item s ''channelId'')),
                           cl'))))"

text \<open>\<open>get_channel_title\<close>; the result \<open>None\<close> is \<open>JNull\<close>.\<close>

definition get_channel_title :: "net \<Rightarrow> client \<Rightarrow> string \<Rightarrow> (exn + json) \<times> client" where
  "get_channel_title nt cl cid =
     (case get nt channels_url
             [(''part'', JStr ''snippet''), (''id'', JStr cid), (''key'', JStr (api_key cl))] 3 cl of
        (Inl e, cl') \<Rightarrow> (Inl e, cl')
      | (Inr None, cl') \<Rightarrow> (Inr JNull, cl')
      | (Inr (Some r), cl') \<Rightarrow>
          (case items_of r of
             Inl e \<Rightarrow> (Inl e, cl')
           | Inr items \<Rightarrow>
               if \<not> truthy items then (Inr JNull, cl')
               else (bind (py_index0 items) (\<lambda>i. bind (py_item i ''snippet'')
                      (\<lambda>s. py_get s ''title'' JNull)),
                     cl')))"

text \<open>Lines 145-152 of \<open>get_live_now\<close>: title and start time from the details lookup.\<close>

definition details :: "response option \<Rightarrow> exn + (json \<times> json)" where
  "details r2 =
     bind (case r2 of None \<Rightarrow> Inr (JArr []) | Some r \<Rightarrow> items_of r)
       (\<lambda>vitems.
          if \<not> truthy vitems then Inr (JNull, JNull)
          else
            bind (py_index0 vitems) (\<lambda>v.
            bind (py_get v ''snippet'' (JObj [])) (\<lambda>s.
            bind (py_get s ''title'' JNull) (\<lambda>title.
            bind (py_get v ''liveStreamingDetails'' (JObj [])) (\<lambda>lsd.
            bind (py_get lsd ''scheduledStartTime'' JNull) (\<lambda>a.
            bind (py_get lsd ''actualStartTime'' JNull) (\<lambda>b.
            Inr (title, py_or a b))))))))"

text \<open>\<open>items[0]["id"]["videoId"]\<close>.\<close>

definition first_video_id :: "json \<Rightarrow> exn + json" where
  "first_video_id items =
     bind (py_index0 items) (\<lambda>i. bind (py_item i ''id'') (\<lambda>d. py_item d ''videoId''))"

definition get_live_now :: "net \<Rightarrow> client \<Rightarrow> string \<Rightarrow> (exn + live_info option) \<times> client" where
  "get_live_now nt cl cid =
     (case get nt search_url
             [(''part'', JStr ''snippet''), (''channelId'', JStr cid),
              (''eventType'', JStr ''live''), (''type'', JStr ''video''),
              (''maxResults'', JNum 1), (''order'', JStr ''date''),
              (''key'', JStr (api_key cl))] 3 cl of
        (Inl e, cl1) \<Rightarrow> (Inl e, cl1)
      | (Inr None, cl1) \<Rightarrow> (Inr None, cl1)
      | (Inr (Some r), cl1) \<Rightarrow>
          (case items_of r of
             Inl e \<Rightarrow> (Inl e, cl1)
           | Inr items \<Rightarrow>
               if \<not> truthy items then (Inr None, cl1)
               else
                 (case first_video_id items of
                    Inl e \<Rightarrow> (Inl e, cl1)
                  | Inr vid \<Rightarrow>
                      (case get nt videos_url
                              [(''part'', JStr ''snippet,liveStreamingDetails''), (''id'', vid),
                               (''key'', JStr (api_key cl1))] 3 cl1 of
                         (Inl e, cl2) \<Rightarrow> (Inl e, cl2)
                       | (Inr r2, cl2) \<Rightarrow>
                           (case details r2 of
                              Inl e \<Rightarrow> (Inl e, cl2)
                            | Inr (title, sched) \<Rightarrow>
                                (case get_channel_title nt cl2 cid of
                                   (Inl e, cl3) \<Rightarrow> (Inl e, cl3)
                                 | (Inr chan_title, cl3) \<Rightarrow>
                                     (Inr (Some \<lparr>channel_id = cid, channel_title = chan_title,
                                                 video_id = vid, video_title = title,
                                                 scheduled_start_time = sched\<rparr>), cl3)))))))"

text \<open>
  \<open>video_url\<close>: \<open>str.format\<close> puts a string in as it is and any other value as Python's
  \<open>str\<close> of it, which is left to the parameter \<open>fmt\<close>.
\<close>

definition video_url :: "(json \<Rightarrow> string) \<Rightarrow> json \<Rightarrow> string" where
  "video_url fmt vid =
     ''https://www.youtube.com/watch?v='' @ (case vid of JStr s \<Rightarrow> s | _ \<Rightarrow> fmt vid)"

section \<open>The store (\<open>app/storage.py\<close>)\<close>

text \<open>
  The text of a stored timestamp, written as what \<open>datetime.fromisoformat\<close> makes of it:
  an instant with a UTC offset (what \<open>datetime.now(timezone.utc).isoformat()\<close> writes, and
  \<open>fromisoformat\<close> reads back as the same instant), an instant without offset, or a text that
  is no ISO timestamp (\<open>Unparseable []\<close> is the empty string). Instants are microseconds
  since the epoch.
\<close>

datatype ts_text = Aware int | Naive int | Unparseable string

fun text_truthy :: "ts_text \<Rightarrow> bool" where
  "text_truthy (Unparseable s) = (s \<noteq> [])"
| "text_truthy _ = True"

definition isoformat :: "int \<Rightarrow> ts_text" where
  "isoformat t = Aware t"

text \<open>
  \<open>now < datetime.fromisoformat(cd)\<close> for the aware instant \<open>now\<close>: \<open>fromisoformat\<close> raises
  \<open>ValueError\<close> on a text it cannot parse, and comparing an aware with a naive datetime
  raises \<open>TypeError\<close>.
\<close>

fun before_text :: "int \<Rightarrow> ts_text \<Rightarrow> exn + bool" where
  "before_text now (Aware t) = Inr (now < t)"
| "before_text now (Naive t) = Inl TypeError"
| "before_text now (Unparseable s) = Inl ValueError"

text \<open>
  \<open>now + timedelta(seconds=d)\<close>: \<open>timedelta\<close> raises \<open>OverflowError\<close> beyond 999999999 days,
  and the sum raises it outside the years 1 to 9999.
\<close>

definition min_instant :: int where
  "min_instant = - 62135596800000000"

definition max_instant :: int where
  "max_instant = 253402300799999999"

definition later :: "int \<Rightarrow> int \<Rightarrow> exn + int" where
  "later now d =
     (if d div 86400 < - 999999999 \<or> 999999999 < d div 86400 then Inl OverflowError
      else if now + 1000000 * d < min_instant \<or> max_instant < now + 1000000 * d
      then Inl OverflowError
      else Inr (now + 1000000 * d))"

text \<open>
  \<open>a == b\<close> on decoded JSON values: \<open>True\<close> and \<open>False\<close> equal 1 and 0, lists are equal
  element by element, dicts when they bind the same keys to equal values. Both sides are
  brought to one form: truth values as numbers, the items of a dict without shadowed bindings
  and sorted by key.
\<close>

primrec canonical :: "json \<Rightarrow> json" where
  "canonical JNull = JNull"
| "canonical (JBool b) = JNum (if b then 1 else 0)"
| "canonical (JNum n) = JNum n"
| "canonical (JStr s) = JStr s"
| "canonical (JArr xs) = JArr (map canonical xs)"
| "canonical (JObj kvs) = JObj (sort_key fst (AList.clearjunk (map (map_prod id canonical) kvs)))"

definition py_eq :: "json \<Rightarrow> json \<Rightarrow> bool" where
  "py_eq a b \<longleftrightarrow> canonical a = canonical b"

text \<open>
  The JSON file as the dictionaries \<open>Storage\<close> keeps in it. The two dictionaries that are
  iterated are lists of items; \<open>last_live\<close> holds the broadcast ids as they were written.
  Reading and writing the file are not modelled as effects that can fail.
\<close>

record storage =
  subscriptions :: "(int \<times> string list) list"
  last_live :: "string \<rightharpoonup> json"
  last_live_at :: "string \<rightharpoonup> ts_text"
  cooldown_until :: "string \<rightharpoonup> ts_text"
  destinations :: "(string \<times> int list) list"

definition all_subscribers_for :: "storage \<Rightarrow> string \<Rightarrow> int list" where
  "all_subscribers_for st c = map fst (filter (\<lambda>(chat, chans). c \<in> set chans) (subscriptions st))"

definition all_channels :: "storage \<Rightarrow> string list" where
  "all_channels st = remdups (concat (map snd (subscriptions st)) @ map fst (destinations st))"

text \<open>\<open>get_last_live\<close>: \<open>None\<close>, here \<open>JNull\<close>, when nothing is stored.\<close>

definition get_last_live :: "storage \<Rightarrow> string \<Rightarrow> json" where
  "get_last_live st c = (case last_live st c of None \<Rightarrow> JNull | Some v \<Rightarrow> v)"

definition set_last_live :: "storage \<Rightarrow> string \<Rightarrow> json \<Rightarrow> storage" where
  "set_last_live st c vid = st\<lparr>last_live := (last_live st)(c \<mapsto> vid)\<rparr>"

definition set_last_live_at :: "storage \<Rightarrow> string \<Rightarrow> ts_text \<Rightarrow> storage" where
  "set_last_live_at st c ts = st\<lparr>last_live_at := (last_live_at st)(c \<mapsto> ts)\<rparr>"

definition get_cooldown_until :: "storage \<Rightarrow> string \<Rightarrow> ts_text option" where
  "get_cooldown_until st c = cooldown_until st c"

definition set_cooldown_until :: "storage \<Rightarrow> string \<Rightarrow> ts_text \<Rightarrow> storage" where
  "set_cooldown_until st c ts = st\<lparr>cooldown_until := (cooldown_until st)(c \<mapsto> ts)\<rparr>"

definition list_destinations :: "storage \<Rightarrow> string \<Rightarrow> int list" where
  "list_destinations st c = (case map_of (destinations st) c of None \<Rightarrow> [] | Some l \<Rightarrow> l)"

section \<open>The polling loop (\<open>main.py\<close>)\<close>

text \<open>
  What the loop does to the outside, in the order it does it: the calls of \<open>get_live_now\<close>,
  the writes to the store and the sends, each with the channel it is done for; a send carries
  whether it was delivered (\<open>False\<close>: \<open>send_message\<close> raised).
\<close>

datatype effect =
    Poll string
  | SetLastLive string json
  | SetLastLiveAt string ts_text
  | SetCooldownUntil string ts_text
  | SendMessage string int string bool

text \<open>
  The environment of the loop: the network, the clock (the \<open>n\<close>-th reading of
  \<open>datetime.now\<close>), the delivery transport (whether the send that would be the \<open>n\<close>-th effect
  is delivered), the orders in which Python iterates the set of tracked channels and the set
  of recipients, both given as the list of their elements, and Python's \<open>str\<close> of a value
  that is not a string.
\<close>

record env =
  net_of :: net
  clock :: "nat \<Rightarrow> int"
  deliver :: "nat \<Rightarrow> int \<Rightarrow> string \<Rightarrow> bool"
  iteration :: "string list \<Rightarrow> string list"
  recipients :: "int list \<Rightarrow> int list"
  str_of :: "json \<Rightarrow> string"

record world =
  store :: storage
  yt :: client
  ticks :: nat
  journal :: "effect list"

definition html_escape_char :: "char \<Rightarrow> string" where
  "html_escape_char c =
     (if c = CHR ''&'' then ''&amp;''
      else if c = CHR ''<'' then ''&lt;''
      else if c = CHR ''>'' then ''&gt;''
      else if c = CHR 0x22 then ''&quot;''
      else if c = CHR 0x27 then ''&#x27;''
      else [c])"

text \<open>\<open>html.escape(s)\<close>: it calls \<open>s.replace\<close>, which only a string has.\<close>

fun html_escape :: "json \<Rightarrow> exn + string" where
  "html_escape (JStr s) = Inr (concat (map html_escape_char s))"
| "html_escape v = Inl AttributeError"

text \<open>The two literals of line 50 and line 52, in UTF-8.\<close>

definition live_label :: string where
  "live_label =
     [CHR 0xD0, CHR 0x9F, CHR 0xD1, CHR 0x80, CHR 0xD1, CHR 0x8F, CHR 0xD0, CHR 0xBC, CHR 0xD0,
      CHR 0xB0, CHR 0xD1, CHR 0x8F, CHR 0x20, CHR 0xD1, CHR 0x82, CHR 0xD1, CHR 0x80, CHR 0xD0,
      CHR 0xB0, CHR 0xD0, CHR 0xBD, CHR 0xD1, CHR 0x81, CHR 0xD0, CHR 0xBB, CHR 0xD1, CHR 0x8F,
      CHR 0xD1, CHR 0x86, CHR 0xD0, CHR 0xB8, CHR 0xD1, CHR 0x8F]"

definition on_air :: string where
  "on_air =
     [CHR 0x20, CHR 0xD0, CHR 0xB2, CHR 0x20, CHR 0xD1, CHR 0x8D, CHR 0xD1, CHR 0x84, CHR 0xD0,
      CHR 0xB8, CHR 0xD1, CHR 0x80, CHR 0xD0, CHR 0xB5, CHR 0x3A, CHR 0x20]"

text \<open>
  Lines 48-52: the URL, the escaped broadcast title, then the escaped channel title, and the
  text made of them.
\<close>

definition message_text :: "env \<Rightarrow> string \<Rightarrow> live_info \<Rightarrow> exn + string" where
  "message_text E c live =
     (let url = video_url (str_of E) (video_id live)
      in bind (html_escape (py_or (video_title live) (JStr live_label))) (\<lambda>title.
         bind (html_escape (py_or (channel_title live) (JStr c))) (\<lambda>chan.
         Inr (chan @ on_air @ title @ [CHR 0x0A] @ url))))"

text \<open>Line 53: the union of the two sets, in the order Python iterates it.\<close>

definition targets :: "env \<Rightarrow> storage \<Rightarrow> string \<Rightarrow> int list" where
  "targets E st c = recipients E (remdups (all_subscribers_for st c @ list_destinations st c))"

text \<open>Lines 26-32: \<open>True\<close> when the channel is skipped. The clock is read before the parse.\<close>

definition cooldown_gate :: "env \<Rightarrow> world \<Rightarrow> string \<Rightarrow> bool \<times> world" where
  "cooldown_gate E w c =
     (case get_cooldown_until (store w) c of
        None \<Rightarrow> (False, w)
      | Some cd \<Rightarrow>
          if \<not> text_truthy cd then (False, w)
          else
            (let now = clock E (ticks w); w1 = w\<lparr>ticks := Suc (ticks w)\<rparr>
             in case before_text now cd of
                  Inl e \<Rightarrow> (False, w1)
                | Inr b \<Rightarrow> (b, w1)))"

definition send_message :: "env \<Rightarrow> string \<Rightarrow> string \<Rightarrow> int \<Rightarrow> world \<Rightarrow> world" where
  "send_message E c text chat w =
     w\<lparr>journal := journal w @ [SendMessage c chat text (deliver E (length (journal w)) chat text)]\<rparr>"

text \<open>
  Lines 40-47: record the broadcast and its time, then, for a positive cooldown, read the
  clock, add the cooldown and record the result. The sum can raise, after the two writes.
\<close>

definition commit :: "env \<Rightarrow> int \<Rightarrow> world \<Rightarrow> string \<Rightarrow> live_info \<Rightarrow> exn option \<times> world" where
  "commit E cooldown_seconds w c live =
     (let w1 = w\<lparr>store := set_last_live (store w) c (video_id live),
                 journal := journal w @ [SetLastLive c (video_id live)]\<rparr>;
          stamp = isoformat (clock E (ticks w1));
          w2 = w1\<lparr>store := set_last_live_at (store w1) c stamp, ticks := Suc (ticks w1),
                  journal := journal w1 @ [SetLastLiveAt c stamp]\<rparr>
      in if cooldown_seconds > 0
         then (case later (clock E (ticks w2)) cooldown_seconds of
                 Inl e \<Rightarrow> (Some e, w2\<lparr>ticks := Suc (ticks w2)\<rparr>)
               | Inr t \<Rightarrow>
                   (None, w2\<lparr>store := set_cooldown_until (store w2) c (isoformat t),
                             ticks := Suc (ticks w2),
                             journal := journal w2 @ [SetCooldownUntil c (isoformat t)]\<rparr>))
         else (None, w2))"

text \<open>Lines 40-59: the writes, the text, then one send to every target.\<close>

definition notify :: "env \<Rightarrow> int \<Rightarrow> world \<Rightarrow> string \<Rightarrow> live_info \<Rightarrow> exn option \<times> world" where
  "notify E cooldown_seconds w c live =
     (case commit E cooldown_seconds w c live of
        (Some e, w3) \<Rightarrow> (Some e, w3)
      | (None, w3) \<Rightarrow>
          (case message_text E c live of
             Inl e \<Rightarrow> (Some e, w3)
           | Inr text \<Rightarrow> (None, fold (send_message E c text) (targets E (store w3) c) w3)))"

text \<open>Lines 34-59: the call of \<open>get_live_now\<close> and what follows it.\<close>

definition poll_channel :: "env \<Rightarrow> int \<Rightarrow> world \<Rightarrow> string \<Rightarrow> exn option \<times> world" where
  "poll_channel E cooldown_seconds w c =
     (let w0 = w\<lparr>journal := journal w @ [Poll c]\<rparr>
      in case get_live_now (net_of E) (yt w0) c of
           (Inl e, cl) \<Rightarrow> (Some e, w0\<lparr>yt := cl\<rparr>)
         | (Inr None, cl) \<Rightarrow> (None, w0\<lparr>yt := cl\<rparr>)
         | (Inr (Some live), cl) \<Rightarrow>
             if py_eq (get_last_live (store w0) c) (video_id live) then (None, w0\<lparr>yt := cl\<rparr>)
             else notify E cooldown_seconds (w0\<lparr>yt := cl\<rparr>) c live)"

text \<open>
  The body of \<open>for channel_id in channels\<close>: the exception that leaves it, if any, and the
  world at that point.
\<close>

definition process_channel :: "env \<Rightarrow> int \<Rightarrow> world \<Rightarrow> string \<Rightarrow> exn option \<times> world" where
  "process_channel E cooldown_seconds w c =
     (case cooldown_gate E w c of
        (True, w1) \<Rightarrow> (None, w1)
      | (False, w1) \<Rightarrow> poll_channel E cooldown_seconds w1 c)"

fun sweep_channels :: "env \<Rightarrow> int \<Rightarrow> world \<Rightarrow> string list \<Rightarrow> exn option \<times> world" where
  "sweep_channels E cooldown_seconds w [] = (None, w)"
| "sweep_channels E cooldown_seconds w (c # cs) =
     (case process_channel E cooldown_seconds w c of
        (Some e, w') \<Rightarrow> (Some e, w')
      | (None, w') \<Rightarrow> sweep_channels E cooldown_seconds w' cs)"

text \<open>
  One pass of \<open>while True\<close>: the \<open>try\<close> around the whole \<open>for\<close> loop, whose handler drops the
  exception. The sleep that follows changes nothing the model keeps.
\<close>

definition sweep :: "env \<Rightarrow> int \<Rightarrow> world \<Rightarrow> world" where
  "sweep E cooldown_seconds w =
     snd (sweep_channels E cooldown_seconds w (iteration E (all_channels (store w))))"

text \<open>The first \<open>n\<close> passes of \<open>notifier_loop\<close>, which itself never returns.\<close>

fun notifier_loop :: "env \<Rightarrow> int \<Rightarrow> nat \<Rightarrow> world \<Rightarrow> world" where
  "notifier_loop E cooldown_seconds 0 w = w"
| "notifier_loop E cooldown_seconds (Suc n) w =
     notifier_loop E cooldown_seconds n (sweep E cooldown_seconds w)"

section \<open>Vocabulary for the properties\<close>

text \<open>What the network answers to one request.\<close>

definition rejects :: "outcome \<Rightarrow> bool" where
  "rejects out = (case out of Returns r \<Rightarrow> quota_rejection r | Raises e \<Rightarrow> False)"

text \<open>The request raises one of the three exceptions the first handler of \<open>_get\<close> names.\<close>

definition retried :: "outcome \<Rightarrow> bool" where
  "retried out = (case out of Returns r \<Rightarrow> False | Raises e \<Rightarrow> transient e)"

definition succeeds :: "outcome \<Rightarrow> bool" where
  "succeeds out = (case out of Returns r \<Rightarrow> \<not> quota_rejection r \<and> \<not> raises_for_status r | Raises e \<Rightarrow> False)"

text \<open>The parameters of a request made with the key at index \<open>k\<close>.\<close>

definition with_key :: "client \<Rightarrow> nat \<Rightarrow> params \<Rightarrow> params" where
  "with_key cl k ps = AList.update ''key'' (JStr (keys cl ! k)) ps"

text \<open>The delays slept and the key indices used, read off the events of a client.\<close>

fun sleeps :: "event list \<Rightarrow> rat list" where
  "sleeps [] = []"
| "sleeps (Sleep d # es) = d # sleeps es"
| "sleeps (e # es) = sleeps es"

fun request_keys :: "event list \<Rightarrow> nat list" where
  "request_keys [] = []"
| "request_keys (Request k # es) = k # request_keys es"
| "request_keys (e # es) = request_keys es"

text \<open>The events of \<open>j\<close> attempts with key \<open>k\<close> that each time out and are retried.\<close>

fun backoff_events :: "nat \<Rightarrow> nat \<Rightarrow> rat \<Rightarrow> event list" where
  "backoff_events k 0 d = []"
| "backoff_events k (Suc j) d = Request k # Sleep d # backoff_events k j (d * 2)"

text \<open>What one rejected request does to the client: it is counted, logged, and the key advances.\<close>

definition reject_step :: "client \<Rightarrow> client" where
  "reject_step cl =
     advance_key (cl\<lparr>requests := Suc (requests cl), events := events cl @ [Request (key_index cl)]\<rparr>)"

text \<open>Values used to run the properties on: a client with two keys and two responses.\<close>

definition two_keys :: client where
  "two_keys = \<lparr>keys = [''key-a'', ''key-b''], key_index = 0, requests = 0, events = []\<rparr>"

definition quota_exceeded :: response where
  "quota_exceeded =
     \<lparr>status_code = 403,
      body = Some (JObj [(''error'', JObj [(''errors'',
               JArr [JObj [(''reason'', JStr ''quotaExceeded'')]])])])\<rparr>"

definition ok_response :: "json \<Rightarrow> response" where
  "ok_response j = \<lparr>status_code = 200, body = Some j\<rparr>"

text \<open>Responses and networks used to run the resolver on.\<close>

definition search_hit :: "string \<Rightarrow> json" where
  "search_hit vid = JObj [(''items'', JArr [JObj [(''id'', JObj [(''videoId'', JStr vid)])]])]"

definition server_error :: response where
  "server_error = \<lparr>status_code = 500, body = None\<rparr>"

definition search_only :: net where
  "search_only n url ps =
     (if url = search_url then Returns (ok_response (search_hit ''v1'')) else Returns server_error)"

definition video_details :: "string \<Rightarrow> json" where
  "video_details title =
     JObj [(''items'', JArr [JObj [(''snippet'', JObj [(''title'', JStr title)])]])]"

definition no_channel_title :: net where
  "no_channel_title n url ps =
     (if url = search_url then Returns (ok_response (search_hit ''v1''))
      else if url = videos_url then Returns (ok_response (video_details ''Concert''))
      else Returns server_error)"

definition channel_hit :: "string \<Rightarrow> json" where
  "channel_hit cid = JObj [(''items'', JArr [JObj [(''snippet'', JObj [(''channelId'', JStr cid)])]])]"

text \<open>The recipients and texts of the sends done for a channel, in order.\<close>

fun sends :: "string \<Rightarrow> effect list \<Rightarrow> (int \<times> string) list" where
  "sends c [] = []"
| "sends c (SendMessage c' chat text ok # es) =
     (if c' = c then (chat, text) # sends c es else sends c es)"
| "sends c (e # es) = sends c es"

text \<open>How many messages a recipient was sent for a channel.\<close>

definition notifications :: "string \<Rightarrow> int \<Rightarrow> effect list \<Rightarrow> nat" where
  "notifications c chat es = length (filter (\<lambda>(chat', text). chat' = chat) (sends c es))"

fun is_send :: "effect \<Rightarrow> bool" where
  "is_send (SendMessage c chat text ok) = True"
| "is_send e = False"

text \<open>The cooldown can be added to the second reading of the clock after \<open>w\<close>.\<close>

definition cooldown_fits :: "env \<Rightarrow> int \<Rightarrow> world \<Rightarrow> bool" where
  "cooldown_fits E D w \<longleftrightarrow>
     D \<le> 0 \<or> later (clock E (Suc (ticks w))) D = Inr (clock E (Suc (ticks w)) + 1000000 * D)"

text \<open>The writes of lines 40-47 for a new broadcast, in order.\<close>

definition commit_effects :: "env \<Rightarrow> int \<Rightarrow> world \<Rightarrow> string \<Rightarrow> live_info \<Rightarrow> effect list" where
  "commit_effects E D w c live =
     [SetLastLive c (video_id live), SetLastLiveAt c (Aware (clock E (ticks w)))]
     @ (if D > 0 \<and> cooldown_fits E D w
        then [SetCooldownUntil c (Aware (clock E (Suc (ticks w)) + 1000000 * D))] else [])"

text \<open>A title as the data class annotates it: absent or a string.\<close>

fun optional_string :: "json \<Rightarrow> bool" where
  "optional_string JNull = True"
| "optional_string (JStr s) = True"
| "optional_string v = False"

text \<open>The title shown: the string, unless it is absent or empty, then the fallback.\<close>

fun shown :: "json \<Rightarrow> string \<Rightarrow> string" where
  "shown (JStr s) d = (if s = [] then d else s)"
| "shown v d = d"

definition escaped :: "string \<Rightarrow> string" where
  "escaped s = concat (map html_escape_char s)"


text \<open>The iteration order of a set of recipients lists each of them, once.\<close>

definition set_order :: "(int list \<Rightarrow> int list) \<Rightarrow> bool" where
  "set_order f \<longleftrightarrow> (\<forall>xs. distinct xs \<longrightarrow> distinct (f xs) \<and> set (f xs) = set xs)"

text \<open>A stored timestamp that parses to an instant with an offset.\<close>

fun aware :: "ts_text \<Rightarrow> bool" where
  "aware (Aware t) = True"
| "aware cd = False"

text \<open>How often \<open>get_live_now\<close> was called for a channel.\<close>

definition polls :: "string \<Rightarrow> effect list \<Rightarrow> nat" where
  "polls c es = count_list es (Poll c)"

text \<open>
  A network on which the search finds the broadcast \<open>v1\<close>, the details lookup gives it the title
  \<open>title\<close>, and the channel-title lookup is answered with status 500.
\<close>

definition broadcast_net :: "json \<Rightarrow> net" where
  "broadcast_net title n url ps =
     (if url = search_url then Returns (ok_response (search_hit ''v1''))
      else if url = videos_url
      then Returns (ok_response
             (JObj [(''items'', JArr [JObj [(''snippet'', JObj [(''title'', title)])]])]))
      else Returns server_error)"

text \<open>What one pass through the loop body shows: the exception that leaves it, and the journal.\<close>

definition process_channel_outcome :: "env \<Rightarrow> int \<Rightarrow> world \<Rightarrow> string \<Rightarrow> exn option \<times> effect list" where
  "process_channel_outcome E D w c =
     (fst (process_channel E D w c), journal (snd (process_channel E D w c)))"


text \<open>A store, an environment and a world used to run the loop on.\<close>

definition example_store :: storage where
  "example_store =
     \<lparr>subscriptions = [(7, [''UCa'', ''UCb'']), (8, [''UCb''])],
      last_live = Map.empty, last_live_at = Map.empty, cooldown_until = Map.empty,
      destinations = [(''UCb'', [-100, 8])]\<rparr>"

definition example_env :: "net \<Rightarrow> env" where
  "example_env nt =
     \<lparr>net_of = nt, clock = (\<lambda>n. 1000 + int n), deliver = (\<lambda>n chat text. True),
      iteration = (\<lambda>cs. cs), recipients = rev, str_of = (\<lambda>v. ''?'')\<rparr>"

definition example_world :: world where
  "example_world = \<lparr>store = example_store, yt = two_keys, ticks = 0, journal = []\<rparr>"

text \<open>The same environment with a transport on which every send fails.\<close>

definition silent_env :: "net \<Rightarrow> env" where
  "silent_env nt = (example_env nt)\<lparr>deliver := (\<lambda>n chat text. False)\<rparr>"

text \<open>A world with one channel and one subscriber.\<close>

definition solo_world :: world where
  "solo_world =
     \<lparr>store = \<lparr>subscriptions = [(7, [''UCa''])], last_live = Map.empty,
                last_live_at = Map.empty, cooldown_until = Map.empty, destinations = []\<rparr>,
      yt = two_keys, ticks = 0, journal = []\<rparr>"

text \<open>
  A network on which the search finds \<open>v2\<close> when it is the fourth request of the client, and
  \<open>v1\<close> otherwise.
\<close>

definition flapping_net :: net where
  "flapping_net n url ps =
     (if url = search_url
      then Returns (ok_response (search_hit (if n = 3 then ''v2'' else ''v1'')))
      else broadcast_net (JStr ''Concert'') n url ps)"



text \<open>The same world with a cooldown of channel \<open>UCb\<close> that is no timestamp.\<close>

definition corrupt_world :: world where
  "corrupt_world =
     example_world\<lparr>store := example_store\<lparr>cooldown_until := [''UCb'' \<mapsto> Unparseable ''tomorrow'']\<rparr>\<rparr>"

definition concert :: live_info where
  "concert = \<lparr>channel_id = ''UCb'', channel_title = JNull, video_id = JStr ''v1'',
              video_title = JStr ''Rock & Roll'', scheduled_start_time = JNull\<rparr>"

section \<open>The retry loop\<close>

lemma sleeps_append [simp]: "sleeps (xs @ ys) = sleeps xs @ sleeps ys"
  by (induction xs rule: sleeps.induct) auto

lemma request_keys_append [simp]: "request_keys (xs @ ys) = request_keys xs @ request_keys ys"
  by (induction xs rule: request_keys.induct) auto

lemma sleeps_backoff: "sleeps (backoff_events k j d) = map (\<lambda>i. d * 2 ^ i) [0..<j]"
proof (induction j arbitrary: d)
  case 0
  show ?case by simp
next
  case (Suc j)
  have "map (\<lambda>i. d * 2 ^ i) [0..<Suc j] = d # map (\<lambda>i. d * 2 * 2 ^ i) [0..<j]"
    by (simp add: upt_conv_Cons map_Suc_upt [symmetric] del: upt_Suc)
  with Suc show ?case by simp
qed

lemma request_keys_backoff: "request_keys (backoff_events k j d) = replicate j k"
  by (induction j arbitrary: d) auto

declare attempts.simps(2) [simp del]

lemma attempts_skip_timeouts:
  "\<forall>i<j. retried (nt (requests cl + i) url pk) \<Longrightarrow> j < left \<Longrightarrow>
   attempts nt url pk left d cl =
   attempts nt url pk (left - j) (d * 2 ^ j)
     (cl\<lparr>requests := requests cl + j, events := events cl @ backoff_events (key_index cl) j d\<rparr>)"
proof (induction j arbitrary: left d cl)
  case 0
  show ?case by simp
next
  case (Suc j)
  from Suc.prems obtain l where l: "left = Suc l" and jl: "j < l"
    by (cases left) auto
  from Suc.prems have "retried (nt (requests cl) url pk)" by force
  then obtain e where e: "nt (requests cl) url pk = Raises e" "transient e"
    by (auto simp: retried_def split: outcome.splits)
  let ?cl = "cl\<lparr>requests := Suc (requests cl), events := events cl @ [Request (key_index cl), Sleep d]\<rparr>"
  have step: "attempts nt url pk left d cl = attempts nt url pk l (d * 2) ?cl"
    using e jl by (simp add: l Let_def attempts.simps(2))
  have "\<forall>i<j. retried (nt (requests ?cl + i) url pk)"
    using Suc.prems by force
  from Suc.IH [OF this jl, of "d * 2"]
  have "attempts nt url pk l (d * 2) ?cl =
     attempts nt url pk (left - Suc j) (d * 2 ^ Suc j)
       (cl\<lparr>requests := requests cl + Suc j,
          events := events cl @ backoff_events (key_index cl) (Suc j) d\<rparr>)"
    by (simp add: l mult.assoc)
  then show ?case by (simp only: step)
qed

lemma attempts_last_timeout:
  "retried (nt (requests cl) url pk) \<Longrightarrow>
   attempts nt url pk (Suc 0) d cl =
   (Return None, d, cl\<lparr>requests := Suc (requests cl), events := events cl @ [Request (key_index cl)]\<rparr>)"
  by (auto simp: retried_def Let_def attempts.simps(2) split: outcome.splits)

lemma attempts_rejected:
  "rejects (nt (requests cl) url pk) \<Longrightarrow>
   attempts nt url pk (Suc left) d cl =
   (Break, d, advance_key (cl\<lparr>requests := Suc (requests cl), events := events cl @ [Request (key_index cl)]\<rparr>))"
  by (auto simp: rejects_def Let_def attempts.simps(2) split: outcome.splits)

lemma attempts_success:
  "nt (requests cl) url pk = Returns r \<Longrightarrow> \<not> quota_rejection r \<Longrightarrow> \<not> raises_for_status r \<Longrightarrow>
   attempts nt url pk (Suc left) d cl =
   (Return (Some r), d, cl\<lparr>requests := Suc (requests cl), events := events cl @ [Request (key_index cl)]\<rparr>)"
  by (auto simp: Let_def attempts.simps(2))

lemma attempts_timeouts:
  assumes "\<forall>i<Suc m. retried (nt (requests cl + i) url pk)"
  shows "attempts nt url pk (Suc m) d cl =
   (Return None, d * 2 ^ m,
    cl\<lparr>requests := requests cl + Suc m,
       events := events cl @ backoff_events (key_index cl) m d @ [Request (key_index cl)]\<rparr>)"
proof -
  have a: "\<forall>i<m. retried (nt (requests cl + i) url pk)" using assms by simp
  have b: "retried (nt (requests cl + m) url pk)" using assms by simp
  show ?thesis
    using attempts_skip_timeouts [of m nt cl url pk "Suc m" d] a b
    by (simp add: attempts_last_timeout)
qed

declare key_loop.simps(2) [simp del]

lemma with_key_api_key: "with_key cl (key_index cl) ps = AList.update ''key'' (JStr (api_key cl)) ps"
  by (simp add: with_key_def api_key_def)

lemma get_timeouts:
  assumes ks: "keys cl \<noteq> []"
    and to: "\<forall>i<n. retried (nt (requests cl + i) url (with_key cl (key_index cl) ps))"
    and n: "n = nat retries"
  shows "get nt url ps retries cl =
     (Inr None, cl\<lparr>requests := requests cl + n,
                   events := events cl @ backoff_events (key_index cl) (n - 1) (1 / 2)
                             @ replicate (min n 1) (Request (key_index cl))\<rparr>)"
proof -
  from ks obtain todo where todo: "length (keys cl) = Suc todo"
    by (cases "keys cl") auto
  show ?thesis
  proof (cases n)
    case 0
    then show ?thesis
      using n by (simp add: get_def todo key_loop.simps(2))
  next
    case (Suc m)
    have "attempts nt url (AList.update ''key'' (JStr (api_key cl)) ps) (Suc m) (1 / 2) cl =
       (Return None, 1 / 2 * 2 ^ m,
        cl\<lparr>requests := requests cl + Suc m,
           events := events cl @ backoff_events (key_index cl) m (1 / 2) @ [Request (key_index cl)]\<rparr>)"
      using to by (intro attempts_timeouts) (simp add: Suc with_key_api_key)
    moreover from n Suc have "nat retries = Suc m" by simp
    ultimately show ?thesis
      by (simp add: get_def todo key_loop.simps(2) Suc)
  qed
qed

lemma doubling_increases: "sorted_wrt (<) (map (\<lambda>i. (1 / 2 :: rat) * 2 ^ i) [0..<n])"
proof -
  have "sorted_wrt (\<lambda>i j. (1 / 2 :: rat) * 2 ^ i < 1 / 2 * 2 ^ j) [0..<n]"
    by (rule sorted_wrt_mono_rel [of _ "(<)"]) auto
  then show ?thesis by (simp add: sorted_wrt_map)
qed

text \<open>
  When each of the \<open>retries\<close> requests of the call is met with one of the three errors the
  handler of line 74 names, exactly \<open>retries\<close> requests are made, all with the current key; the
  delays slept between them are \<open>0.5, 1, 2, ...\<close>, each the double of the one before, hence
  strictly increasing; and the call returns \<open>None\<close>, it does not raise. The bound on \<open>retries\<close>
  keeps every delay within the range where the float of the source is the power of two
  written here.
\<close>

theorem retry_ceiling:
  assumes "keys cl \<noteq> []" and "0 \<le> retries" and "retries \<le> 1026"
    and "\<forall>i<nat retries. retried (nt (requests cl + i) url (with_key cl (key_index cl) ps))"
  shows "fst (get nt url ps retries cl) = Inr None
       \<and> requests (snd (get nt url ps retries cl)) = requests cl + nat retries
       \<and> request_keys (events (snd (get nt url ps retries cl)))
           = request_keys (events cl) @ replicate (nat retries) (key_index cl)
       \<and> key_index (snd (get nt url ps retries cl)) = key_index cl
       \<and> sleeps (events (snd (get nt url ps retries cl)))
           = sleeps (events cl) @ map (\<lambda>i. 1 / 2 * 2 ^ i) [0..<nat retries - 1]
       \<and> sorted_wrt (<) (map (\<lambda>i. (1 / 2 :: rat) * 2 ^ i) [0..<nat retries - 1])"
proof -
  have g: "get nt url ps retries cl =
     (Inr None, cl\<lparr>requests := requests cl + nat retries,
                   events := events cl @ backoff_events (key_index cl) (nat retries - 1) (1 / 2)
                             @ replicate (min (nat retries) 1) (Request (key_index cl))\<rparr>)"
    by (rule get_timeouts [where n = "nat retries"]) (use assms in simp_all)
  have rk: "request_keys (replicate k (Request j)) = replicate k j" for k j
    by (induction k) auto
  have sl: "sleeps (replicate k (Request j)) = []" for k j
    by (induction k) auto
  have 1: "fst (get nt url ps retries cl) = Inr None"
    by (simp add: g)
  have 2: "requests (snd (get nt url ps retries cl)) = requests cl + nat retries"
    by (simp add: g)
  have 3: "request_keys (events (snd (get nt url ps retries cl)))
           = request_keys (events cl) @ replicate (nat retries) (key_index cl)"
    by (simp add: g request_keys_backoff rk replicate_add [symmetric] min_def)
  have 4: "key_index (snd (get nt url ps retries cl)) = key_index cl"
    by (simp add: g)
  have 5: "sleeps (events (snd (get nt url ps retries cl)))
           = sleeps (events cl) @ map (\<lambda>i. 1 / 2 * 2 ^ i) [0..<nat retries - 1]"
    by (simp add: g sleeps_backoff sl)
  from 1 2 3 4 5 doubling_increases [of "nat retries - 1"] show ?thesis
    by (intro conjI)
qed

theorem retry_ceiling_witness:
  "fst (get (\<lambda>n u p. Raises ReadTimeout) ''u'' [] 3
         \<lparr>keys = [''k1'', ''k2''], key_index = 0, requests = 0, events = []\<rparr>) = Inr None
   \<and> requests (snd (get (\<lambda>n u p. Raises ReadTimeout) ''u'' [] 3
         \<lparr>keys = [''k1'', ''k2''], key_index = 0, requests = 0, events = []\<rparr>)) = 3
   \<and> sleeps (events (snd (get (\<lambda>n u p. Raises ReadTimeout) ''u'' [] 3
         \<lparr>keys = [''k1'', ''k2''], key_index = 0, requests = 0, events = []\<rparr>))) = [1 / 2, 1]"
  using retry_ceiling [of "\<lparr>keys = [''k1'', ''k2''], key_index = 0, requests = 0, events = []\<rparr>" 3
      "\<lambda>n u p. Raises ReadTimeout" "''u''" "[]"]
  by (simp add: retried_def transient_def numeral_2_eq_2)

text \<open>
  Claim C7. Under persistent connect, read or write timeouts the call is to make \<open>retries\<close>
  attempts with growing delays and then return \<open>None\<close>. For read and write timeouts, and for
  a refused connection, it does (\<open>retry_ceiling\<close>). For a timeout while connecting it does
  not: \<open>ConnectTimeout\<close> is none of the exceptions the handler of line 74 names and is no
  \<open>HTTPStatusError\<close>, so the first attempt that meets it ends the call. One request is made,
  nothing is slept, no further attempt follows, and the exception leaves \<open>_get\<close>.
\<close>

theorem connect_timeout_not_retried:
  assumes "keys cl \<noteq> []" and "0 < retries"
    and "nt (requests cl) url (with_key cl (key_index cl) ps) = Raises ConnectTimeout"
  shows "get nt url ps retries cl
       = (Inl ConnectTimeout,
          cl\<lparr>requests := Suc (requests cl), events := events cl @ [Request (key_index cl)]\<rparr>)"
proof -
  from assms(1) obtain todo where todo: "length (keys cl) = Suc todo"
    by (cases "keys cl") auto
  from assms(2) obtain left where left: "nat retries = Suc left"
    by (cases "nat retries") auto
  have "attempts nt url (AList.update ''key'' (JStr (api_key cl)) ps) (Suc left) (1 / 2) cl
      = (Raise ConnectTimeout, 1 / 2,
         cl\<lparr>requests := Suc (requests cl), events := events cl @ [Request (key_index cl)]\<rparr>)"
    using assms(3)
    by (simp add: attempts.simps(2) Let_def transient_def with_key_api_key)
  then show ?thesis
    by (simp add: get_def todo key_loop.simps(2) left)
qed

theorem connect_timeout_not_retried_witness:
  "get (\<lambda>n u p. Raises ConnectTimeout) ''u'' [] 3 two_keys
   = (Inl ConnectTimeout, two_keys\<lparr>requests := 1, events := [Request 0]\<rparr>)"
  using connect_timeout_not_retried [of two_keys 3 "\<lambda>n u p. Raises ConnectTimeout" "''u''" "[]"]
  by (simp add: two_keys_def)

lemma reject_step_keys [simp]: "keys (reject_step cl) = keys cl"
  by (simp add: reject_step_def advance_key_def Let_def)

lemma reject_step_requests [simp]: "requests (reject_step cl) = Suc (requests cl)"
  by (simp add: reject_step_def advance_key_def Let_def)

lemma reject_step_index:
  "key_index cl < length (keys cl) \<Longrightarrow>
   key_index (reject_step cl) = (key_index cl + 1) mod length (keys cl)"
  by (cases "length (keys cl) = 1") (auto simp: reject_step_def advance_key_def Let_def)

lemma reject_step_request_keys [simp]:
  "request_keys (events (reject_step cl)) = request_keys (events cl) @ [key_index cl]"
  by (simp add: reject_step_def advance_key_def Let_def)

lemma reject_step_sleeps [simp]: "sleeps (events (reject_step cl)) = sleeps (events cl)"
  by (simp add: reject_step_def advance_key_def Let_def)

lemma rejected_keys [simp]: "keys ((reject_step ^^ i) cl) = keys cl"
  by (induction i) auto

lemma rejected_requests [simp]: "requests ((reject_step ^^ i) cl) = requests cl + i"
  by (induction i) auto

lemma rejected_sleeps [simp]: "sleeps (events ((reject_step ^^ i) cl)) = sleeps (events cl)"
  by (induction i) auto

lemma rejected_index:
  "key_index cl < length (keys cl) \<Longrightarrow>
   key_index ((reject_step ^^ i) cl) = (key_index cl + i) mod length (keys cl)"
proof (induction i)
  case 0
  then show ?case by simp
next
  case (Suc i)
  from Suc.prems have "0 < length (keys cl)" by (cases "keys cl") auto
  then have "key_index ((reject_step ^^ i) cl) < length (keys ((reject_step ^^ i) cl))"
    using Suc by simp
  from reject_step_index [OF this] Suc show ?case
    by (simp add: mod_Suc_eq)
qed

lemma rejected_request_keys:
  "key_index cl < length (keys cl) \<Longrightarrow>
   request_keys (events ((reject_step ^^ i) cl))
   = request_keys (events cl) @ map (\<lambda>j. (key_index cl + j) mod length (keys cl)) [0..<i]"
  by (induction i) (auto simp: rejected_index)

lemma key_loop_rejected:
  assumes "0 < retries"
    and "\<forall>i<m. rejects (nt (requests cl + i) url
                  (AList.update ''key'' (JStr (api_key ((reject_step ^^ i) cl))) ps))"
  shows "key_loop nt url ps retries (m + todo) d cl
       = key_loop nt url ps retries todo d ((reject_step ^^ m) cl)"
  using assms(2)
proof (induction m arbitrary: cl)
  case 0
  show ?case by simp
next
  case (Suc m)
  from assms(1) obtain left where left: "nat retries = Suc left"
    by (cases "nat retries") auto
  from Suc.prems have "rejects (nt (requests cl) url (AList.update ''key'' (JStr (api_key cl)) ps))"
    by force
  then have step: "key_loop nt url ps retries (Suc (m + todo)) d cl
      = key_loop nt url ps retries (m + todo) d (reject_step cl)"
    by (simp add: key_loop.simps(2) left attempts_rejected reject_step_def)
  have "\<forall>i<m. rejects (nt (requests (reject_step cl) + i) url
                  (AList.update ''key'' (JStr (api_key ((reject_step ^^ i) (reject_step cl)))) ps))"
    using Suc.prems by (auto simp: funpow_swap1 dest: spec [of _ "Suc i" for i])
  from Suc.IH [OF this] show ?case
    by (simp add: step funpow_swap1)
qed

section \<open>Key rotation\<close>

lemma advance_key_request_keys [simp]:
  "request_keys (events (advance_key cl)) = request_keys (events cl)"
  by (simp add: advance_key_def Let_def)

lemma attempts_extends:
  "\<exists>rest. request_keys (events (snd (snd (attempts nt url pk left d cl))))
         = request_keys (events cl) @ rest"
proof (induction left arbitrary: d cl)
  case 0
  show ?case by simp
next
  case (Suc left)
  let ?cl1 = "cl\<lparr>requests := Suc (requests cl), events := events cl @ [Request (key_index cl)]\<rparr>"
  obtain rest where
    "request_keys (events (snd (snd (attempts nt url pk left (d * 2)
        (?cl1\<lparr>events := events ?cl1 @ [Sleep d]\<rparr>)))))
     = request_keys (events (?cl1\<lparr>events := events ?cl1 @ [Sleep d]\<rparr>)) @ rest"
    using Suc.IH by blast
  then show ?case
    by (auto simp: attempts.simps(2) Let_def split: outcome.splits)
qed

lemma attempts_first_request:
  "\<exists>rest. request_keys (events (snd (snd (attempts nt url pk (Suc left) d cl))))
         = request_keys (events cl) @ key_index cl # rest"
proof -
  let ?cl1 = "cl\<lparr>requests := Suc (requests cl), events := events cl @ [Request (key_index cl)]\<rparr>"
  obtain rest where
    "request_keys (events (snd (snd (attempts nt url pk left (d * 2)
        (?cl1\<lparr>events := events ?cl1 @ [Sleep d]\<rparr>)))))
     = request_keys (events (?cl1\<lparr>events := events ?cl1 @ [Sleep d]\<rparr>)) @ rest"
    using attempts_extends by blast
  then show ?thesis
    by (auto simp: attempts.simps(2) Let_def split: outcome.splits)
qed

lemma key_loop_extends:
  "\<exists>rest. request_keys (events (snd (key_loop nt url ps retries todo d cl)))
         = request_keys (events cl) @ rest"
proof (induction todo arbitrary: d cl)
  case 0
  show ?case by simp
next
  case (Suc todo)
  let ?pk = "AList.update ''key'' (JStr (api_key cl)) ps"
  obtain x d' cl' where a: "attempts nt url ?pk (nat retries) d cl = (x, d', cl')"
    by (cases "attempts nt url ?pk (nat retries) d cl") auto
  obtain r1 where r1: "request_keys (events cl') = request_keys (events cl) @ r1"
    using attempts_extends [of nt url ?pk "nat retries" d cl] a by auto
  obtain r2 where "request_keys (events (snd (key_loop nt url ps retries todo d' cl')))
      = request_keys (events cl') @ r2"
    using Suc.IH by blast
  with r1 a show ?case
    by (cases x) (auto simp: key_loop.simps(2))
qed

lemma key_loop_first_request:
  assumes "0 < retries"
  shows "\<exists>rest. request_keys (events (snd (key_loop nt url ps retries (Suc todo) d cl)))
         = request_keys (events cl) @ key_index cl # rest"
proof -
  let ?pk = "AList.update ''key'' (JStr (api_key cl)) ps"
  from assms obtain left where left: "nat retries = Suc left"
    by (cases "nat retries") auto
  obtain x d' cl' where a: "attempts nt url ?pk (Suc left) d cl = (x, d', cl')"
    by (cases "attempts nt url ?pk (Suc left) d cl") auto
  obtain r1 where r1: "request_keys (events cl') = request_keys (events cl) @ key_index cl # r1"
    using attempts_first_request [of nt url ?pk left d cl] a by auto
  obtain r2 where "request_keys (events (snd (key_loop nt url ps retries todo d' cl')))
      = request_keys (events cl') @ r2"
    using key_loop_extends by blast
  with r1 a show ?thesis
    by (cases x) (auto simp: key_loop.simps(2) left)
qed

lemma rejected_api_key:
  "key_index cl < length (keys cl) \<Longrightarrow>
   AList.update ''key'' (JStr (api_key ((reject_step ^^ i) cl))) ps
   = with_key cl ((key_index cl + i) mod length (keys cl)) ps"
  by (simp add: api_key_def with_key_def rejected_index)

lemma get_rejected:
  assumes "0 < retries" and "key_index cl < length (keys cl)"
    and "m \<le> length (keys cl)"
    and "\<forall>i<m. rejects (nt (requests cl + i) url
                  (with_key cl ((key_index cl + i) mod length (keys cl)) ps))"
  shows "get nt url ps retries cl
       = key_loop nt url ps retries (length (keys cl) - m) (1 / 2) ((reject_step ^^ m) cl)"
proof -
  have "key_loop nt url ps retries (m + (length (keys cl) - m)) (1 / 2) cl
      = key_loop nt url ps retries (length (keys cl) - m) (1 / 2) ((reject_step ^^ m) cl)"
    using assms by (intro key_loop_rejected) (simp_all add: rejected_api_key)
  with assms(3) show ?thesis by (simp add: get_def)
qed

lemma advance_key_requests [simp]: "requests (advance_key cl) = requests cl"
  by (simp add: advance_key_def Let_def)

lemma advance_key_index:
  "1 < length (keys cl) \<Longrightarrow> key_index (advance_key cl) = (key_index cl + 1) mod length (keys cl)"
  by (simp add: advance_key_def Let_def)

lemma advance_key_keys [simp]: "keys (advance_key cl) = keys cl"
  by (simp add: advance_key_def Let_def)

lemma rotation_all_rejected:
  assumes "0 < retries" and "key_index cl < length (keys cl)"
    and "\<forall>i<length (keys cl). rejects (nt (requests cl + i) url
                  (with_key cl ((key_index cl + i) mod length (keys cl)) ps))"
  shows "get nt url ps retries cl = (Inr None, (reject_step ^^ length (keys cl)) cl)"
proof -
  have "get nt url ps retries cl
      = key_loop nt url ps retries (length (keys cl) - length (keys cl)) (1 / 2)
          ((reject_step ^^ length (keys cl)) cl)"
    by (rule get_rejected) (use assms in simp_all)
  then show ?thesis by simp
qed

lemma rotation_tries_all:
  assumes "0 < retries" and "key_index cl < length (keys cl)"
    and "\<forall>i<length (keys cl) - 1. rejects (nt (requests cl + i) url
                  (with_key cl ((key_index cl + i) mod length (keys cl)) ps))"
  shows "\<exists>rest. request_keys (events (snd (get nt url ps retries cl)))
       = request_keys (events cl)
         @ map (\<lambda>i. (key_index cl + i) mod length (keys cl)) [0..<length (keys cl)] @ rest"
proof -
  let ?N = "length (keys cl)"
  let ?cl = "(reject_step ^^ (?N - 1)) cl"
  from assms(2) obtain m where m: "?N = Suc m" by (cases "?N") auto
  have "get nt url ps retries cl = key_loop nt url ps retries (?N - (?N - 1)) (1 / 2) ?cl"
    by (rule get_rejected) (use assms in simp_all)
  then have g: "get nt url ps retries cl = key_loop nt url ps retries (Suc 0) (1 / 2) ?cl"
    by (simp add: m)
  obtain rest where "request_keys (events (snd (key_loop nt url ps retries (Suc 0) (1 / 2) ?cl)))
      = request_keys (events ?cl) @ key_index ?cl # rest"
    using key_loop_first_request [OF assms(1)] by blast
  then have "request_keys (events (snd (get nt url ps retries cl)))
      = request_keys (events cl) @ map (\<lambda>i. (key_index cl + i) mod ?N) [0..<?N] @ rest"
    using assms(2) by (simp add: g rejected_request_keys rejected_index m)
  then show ?thesis by blast
qed

lemma rotation_next_succeeds:
  assumes "0 < retries" and "key_index cl < length (keys cl)" and "1 < length (keys cl)"
    and "rejects (nt (requests cl) url (with_key cl (key_index cl) ps))"
    and "nt (Suc (requests cl)) url (with_key cl ((key_index cl + 1) mod length (keys cl)) ps)
         = Returns r"
    and "\<not> quota_rejection r" and "\<not> raises_for_status r"
  shows "get nt url ps retries cl =
     (Inr (Some r),
      (reject_step cl)\<lparr>requests := requests cl + 2,
         events := events (reject_step cl) @ [Request ((key_index cl + 1) mod length (keys cl))]\<rparr>)"
proof -
  from assms(3) obtain todo where todo: "length (keys cl) - 1 = Suc todo"
    by (cases "length (keys cl) - 1") auto
  from assms(1) obtain left where left: "nat retries = Suc left"
    by (cases "nat retries") auto
  have "get nt url ps retries cl
      = key_loop nt url ps retries (length (keys cl) - 1) (1 / 2) ((reject_step ^^ 1) cl)"
    by (rule get_rejected) (use assms in simp_all)
  then have g: "get nt url ps retries cl
      = key_loop nt url ps retries (Suc todo) (1 / 2) (reject_step cl)"
    using todo by simp
  have k: "AList.update ''key'' (JStr (api_key (reject_step cl))) ps
      = with_key cl ((key_index cl + 1) mod length (keys cl)) ps"
    using rejected_api_key [OF assms(2), of 1] by simp
  have i: "key_index (reject_step cl) = (key_index cl + 1) mod length (keys cl)"
    using reject_step_index [OF assms(2)] .
  show ?thesis
    using assms(5-7)
    by (simp add: g key_loop.simps(2) left k attempts_success i)
qed

lemma rotation_fresh_ceiling:
  assumes "0 < retries" and "key_index cl < length (keys cl)" and "1 < length (keys cl)"
    and "j < nat retries"
    and "\<forall>i<j. retried (nt (requests cl + i) url (with_key cl (key_index cl) ps))"
    and "rejects (nt (requests cl + j) url (with_key cl (key_index cl) ps))"
    and "\<forall>i<nat retries. retried (nt (requests cl + j + 1 + i) url
           (with_key cl ((key_index cl + 1) mod length (keys cl)) ps))"
  shows "fst (get nt url ps retries cl) = Inr None
       \<and> requests (snd (get nt url ps retries cl)) = requests cl + j + 1 + nat retries
       \<and> request_keys (events (snd (get nt url ps retries cl)))
           = request_keys (events cl) @ replicate (j + 1) (key_index cl)
             @ replicate (nat retries) ((key_index cl + 1) mod length (keys cl))"
proof -
  let ?N = "length (keys cl)"
  let ?c' = "(key_index cl + 1) mod ?N"
  let ?pk = "AList.update ''key'' (JStr (api_key cl)) ps"
  from assms(3) obtain todo where todo: "?N = Suc (Suc todo)"
    by (cases "?N"; cases "?N - 1") auto
  from assms(1) obtain left where left: "nat retries = Suc left"
    by (cases "nat retries") auto
  let ?cl1 = "cl\<lparr>requests := requests cl + j,
                  events := events cl @ backoff_events (key_index cl) j (1 / 2)\<rparr>"
  let ?cl2 = "advance_key (?cl1\<lparr>requests := Suc (requests ?cl1),
                  events := events ?cl1 @ [Request (key_index ?cl1)]\<rparr>)"
  obtain l' where l': "nat retries - j = Suc l'"
    using assms(4) by (cases "nat retries - j") auto
  have a1: "attempts nt url ?pk (nat retries) (1 / 2) cl
      = attempts nt url ?pk (nat retries - j) (1 / 2 * 2 ^ j) ?cl1"
    using assms(4,5) by (intro attempts_skip_timeouts) (simp_all add: with_key_api_key)
  have a2: "attempts nt url ?pk (Suc l') (1 / 2 * 2 ^ j) ?cl1 = (Break, 1 / 2 * 2 ^ j, ?cl2)"
    using assms(6) by (intro attempts_rejected) (simp add: with_key_api_key)
  have s1: "key_loop nt url ps retries ?N (1 / 2) cl
      = key_loop nt url ps retries (Suc todo) (1 / 2 * 2 ^ j) ?cl2"
    by (simp only: todo key_loop.simps(2) Let_def a1 l' a2 prod.case attempt_exit.case)
  have i2: "key_index ?cl2 = ?c'" and k2: "keys ?cl2 = keys cl"
    and r2: "requests ?cl2 = requests cl + j + 1"
    using assms(3) by (simp_all add: advance_key_def Let_def)
  have pk2: "AList.update ''key'' (JStr (api_key ?cl2)) ps = with_key cl ?c' ps"
    by (simp only: api_key_def with_key_def i2 k2)
  have a3: "attempts nt url (with_key cl ?c' ps) (Suc left) (1 / 2 * 2 ^ j) ?cl2
      = (Return None, 1 / 2 * 2 ^ j * 2 ^ left,
         ?cl2\<lparr>requests := requests ?cl2 + Suc left,
            events := events ?cl2 @ backoff_events (key_index ?cl2) left (1 / 2 * 2 ^ j)
                      @ [Request (key_index ?cl2)]\<rparr>)"
  proof (rule attempts_timeouts)
    have "\<forall>i<Suc left. retried (nt (requests cl + j + 1 + i) url (with_key cl ?c' ps))"
      using assms(7) by (simp add: left)
    then show "\<forall>i<Suc left. retried (nt (requests ?cl2 + i) url (with_key cl ?c' ps))"
      by (simp only: r2)
  qed
  have g: "get nt url ps retries cl
      = (Inr None,
         ?cl2\<lparr>requests := requests ?cl2 + Suc left,
            events := events ?cl2 @ backoff_events (key_index ?cl2) left (1 / 2 * 2 ^ j)
                      @ [Request (key_index ?cl2)]\<rparr>)"
    unfolding get_def s1
    by (simp only: key_loop.simps(2) Let_def pk2 left a3 prod.case attempt_exit.case)
  have e2: "request_keys (events ?cl2) = request_keys (events cl) @ replicate (j + 1) (key_index cl)"
    by (simp add: request_keys_backoff replicate_append_same)
  have 1: "fst (get nt url ps retries cl) = Inr None" by (simp add: g)
  have 2: "requests (snd (get nt url ps retries cl)) = requests cl + j + 1 + nat retries"
    by (simp add: g r2 left)
  have 3: "request_keys (events (snd (get nt url ps retries cl)))
           = request_keys (events cl) @ replicate (j + 1) (key_index cl)
             @ replicate (nat retries) ?c'"
    unfolding g using assms(3)
    by (simp add: request_keys_backoff left replicate_append_same advance_key_index)
  from 1 2 3 show ?thesis by (intro conjI)
qed

lemma rotation_covers:
  assumes "c < N" and "k < N"
  shows "k \<in> set (map (\<lambda>i. (c + i) mod N) [0..<N])"
proof -
  have "(c + (k + N - c) mod N) mod N = (c + (k + N - c)) mod N"
    by (simp add: mod_add_right_eq)
  also have "\<dots> = (k + N) mod N" using assms by simp
  also have "\<dots> = k" using assms by simp
  finally have "(c + (k + N - c) mod N) mod N = k" .
  moreover have "(k + N - c) mod N < N" using assms by simp
  ultimately show ?thesis by force
qed

text \<open>
  Claim C3. For a client with \<open>N\<close> keys whose cursor is at \<open>c\<close>, and at least one attempt
  per key: (1) when the first \<open>N - 1\<close> requests, made with keys \<open>c, c + 1, ...\<close> (mod \<open>N\<close>),
  are met with a quota rejection, the call goes on to request with the \<open>N\<close>-th key: its first
  \<open>N\<close> requests use the keys \<open>c, ..., c + N - 1\<close> (mod \<open>N\<close>), so every key is tried;
  (2) when all \<open>N\<close> are rejected the call has tried each key once, made \<open>N\<close> requests, and
  fails with \<open>None\<close>; (3) when key \<open>c\<close> is rejected and the next request, made with key
  \<open>c + 1\<close> (mod \<open>N\<close>), succeeds, the call returns that response and the cursor is at
  \<open>c + 1\<close> (mod \<open>N\<close>); (4) when key \<open>c\<close> is rejected after \<open>j\<close> timeouts and the next key meets
  only timeouts, the next key is still tried the full \<open>retries\<close> times: neither the
  rejection nor the earlier retries count against its ceiling.
\<close>

theorem rotation_correctness:
  assumes "0 < retries" and "key_index cl < length (keys cl)"
  shows "((\<forall>i<length (keys cl) - 1. rejects (nt (requests cl + i) url
              (with_key cl ((key_index cl + i) mod length (keys cl)) ps)))
          \<longrightarrow> (\<exists>rest. request_keys (events (snd (get nt url ps retries cl)))
                  = request_keys (events cl)
                    @ map (\<lambda>i. (key_index cl + i) mod length (keys cl)) [0..<length (keys cl)]
                    @ rest)
              \<and> (\<forall>k<length (keys cl).
                    k \<in> set (request_keys (events (snd (get nt url ps retries cl))))))
       \<and> ((\<forall>i<length (keys cl). rejects (nt (requests cl + i) url
              (with_key cl ((key_index cl + i) mod length (keys cl)) ps)))
          \<longrightarrow> fst (get nt url ps retries cl) = Inr None
              \<and> requests (snd (get nt url ps retries cl)) = requests cl + length (keys cl)
              \<and> request_keys (events (snd (get nt url ps retries cl)))
                  = request_keys (events cl)
                    @ map (\<lambda>i. (key_index cl + i) mod length (keys cl)) [0..<length (keys cl)]
              \<and> key_index (snd (get nt url ps retries cl)) = key_index cl)
       \<and> (1 < length (keys cl)
            \<and> rejects (nt (requests cl) url (with_key cl (key_index cl) ps))
            \<and> nt (Suc (requests cl)) url
                 (with_key cl ((key_index cl + 1) mod length (keys cl)) ps) = Returns r
            \<and> \<not> quota_rejection r \<and> \<not> raises_for_status r
          \<longrightarrow> fst (get nt url ps retries cl) = Inr (Some r)
              \<and> key_index (snd (get nt url ps retries cl))
                  = (key_index cl + 1) mod length (keys cl)
              \<and> requests (snd (get nt url ps retries cl)) = requests cl + 2)
       \<and> (1 < length (keys cl) \<and> j < nat retries
            \<and> (\<forall>i<j. retried (nt (requests cl + i) url (with_key cl (key_index cl) ps)))
            \<and> rejects (nt (requests cl + j) url (with_key cl (key_index cl) ps))
            \<and> (\<forall>i<nat retries. retried (nt (requests cl + j + 1 + i) url
                  (with_key cl ((key_index cl + 1) mod length (keys cl)) ps)))
          \<longrightarrow> fst (get nt url ps retries cl) = Inr None
              \<and> request_keys (events (snd (get nt url ps retries cl)))
                  = request_keys (events cl) @ replicate (j + 1) (key_index cl)
                    @ replicate (nat retries) ((key_index cl + 1) mod length (keys cl)))"
proof (intro conjI impI)
  let ?N = "length (keys cl)"
  let ?g = "get nt url ps retries cl"
  {
    assume h: "\<forall>i<?N - 1. rejects (nt (requests cl + i) url
              (with_key cl ((key_index cl + i) mod ?N) ps))"
    have "\<exists>rest. request_keys (events (snd ?g))
        = request_keys (events cl) @ map (\<lambda>i. (key_index cl + i) mod ?N) [0..<?N] @ rest"
      by (rule rotation_tries_all) (use assms h in simp_all)
    then obtain rest where rest: "request_keys (events (snd ?g))
        = request_keys (events cl) @ map (\<lambda>i. (key_index cl + i) mod ?N) [0..<?N] @ rest"
      by blast
    then show "\<exists>rest. request_keys (events (snd ?g))
        = request_keys (events cl) @ map (\<lambda>i. (key_index cl + i) mod ?N) [0..<?N] @ rest"
      by blast
    show "\<forall>k<?N. k \<in> set (request_keys (events (snd ?g)))"
    proof (intro allI impI)
      fix k assume "k < ?N"
      from rotation_covers [OF assms(2) this] show "k \<in> set (request_keys (events (snd ?g)))"
        unfolding rest by simp
    qed
  }
  {
    assume h: "\<forall>i<?N. rejects (nt (requests cl + i) url
              (with_key cl ((key_index cl + i) mod ?N) ps))"
    have g: "?g = (Inr None, (reject_step ^^ ?N) cl)"
      by (rule rotation_all_rejected) (use assms h in simp_all)
    show "fst ?g = Inr None" by (simp add: g)
    show "requests (snd ?g) = requests cl + ?N" by (simp add: g)
    show "request_keys (events (snd ?g))
        = request_keys (events cl) @ map (\<lambda>i. (key_index cl + i) mod ?N) [0..<?N]"
      using assms(2) by (simp add: g rejected_request_keys)
    show "key_index (snd ?g) = key_index cl"
      using assms(2) by (simp add: g rejected_index)
  }
  {
    assume h: "1 < ?N \<and> rejects (nt (requests cl) url (with_key cl (key_index cl) ps))
            \<and> nt (Suc (requests cl)) url (with_key cl ((key_index cl + 1) mod ?N) ps) = Returns r
            \<and> \<not> quota_rejection r \<and> \<not> raises_for_status r"
    have g: "?g = (Inr (Some r),
      (reject_step cl)\<lparr>requests := requests cl + 2,
         events := events (reject_step cl) @ [Request ((key_index cl + 1) mod ?N)]\<rparr>)"
      by (rule rotation_next_succeeds) (use assms h in simp_all)
    show "fst ?g = Inr (Some r)" by (simp add: g)
    show "key_index (snd ?g) = (key_index cl + 1) mod ?N"
      using reject_step_index [OF assms(2)] by (simp add: g)
    show "requests (snd ?g) = requests cl + 2" by (simp add: g)
  }
  {
    assume h: "1 < ?N \<and> j < nat retries
            \<and> (\<forall>i<j. retried (nt (requests cl + i) url (with_key cl (key_index cl) ps)))
            \<and> rejects (nt (requests cl + j) url (with_key cl (key_index cl) ps))
            \<and> (\<forall>i<nat retries. retried (nt (requests cl + j + 1 + i) url
                  (with_key cl ((key_index cl + 1) mod ?N) ps)))"
    have "fst ?g = Inr None
       \<and> requests (snd ?g) = requests cl + j + 1 + nat retries
       \<and> request_keys (events (snd ?g))
           = request_keys (events cl) @ replicate (j + 1) (key_index cl)
             @ replicate (nat retries) ((key_index cl + 1) mod ?N)"
      by (rule rotation_fresh_ceiling) (use assms h in simp_all)
    then show "fst ?g = Inr None"
      and "request_keys (events (snd ?g))
           = request_keys (events cl) @ replicate (j + 1) (key_index cl)
             @ replicate (nat retries) ((key_index cl + 1) mod ?N)"
      by simp_all
  }
qed

lemma quota_exceeded_rejected [simp]: "quota_rejection quota_exceeded"
  by (simp add: quota_rejection_def quota_exceeded_def reasons_def quota_reasons_def)

lemma ok_response_accepted [simp]:
  "\<not> quota_rejection (ok_response j)" "\<not> raises_for_status (ok_response j)"
  by (simp_all add: quota_rejection_def raises_for_status_def ok_response_def)

theorem rotation_correctness_witness:
  "fst (get (\<lambda>n u p. Returns quota_exceeded) ''u'' [] 3 two_keys) = Inr None
   \<and> request_keys (events (snd (get (\<lambda>n u p. Returns quota_exceeded) ''u'' [] 3 two_keys))) = [0, 1]
   \<and> fst (get (\<lambda>n u p. if n = 0 then Returns quota_exceeded else Returns (ok_response JNull))
            ''u'' [] 3 two_keys) = Inr (Some (ok_response JNull))
   \<and> key_index (snd (get (\<lambda>n u p. if n = 0 then Returns quota_exceeded
                                    else Returns (ok_response JNull)) ''u'' [] 3 two_keys)) = 1
   \<and> request_keys (events (snd (get (\<lambda>n u p. if n = 0 then Returns quota_exceeded
                                    else Raises ReadTimeout) ''u'' [] 3 two_keys))) = [0, 1, 1, 1]"
  using rotation_correctness [of 3 two_keys "\<lambda>n u p. Returns quota_exceeded" "''u''" "[]"
          "ok_response JNull" 0]
    rotation_correctness [of 3 two_keys
          "\<lambda>n u p. if n = 0 then Returns quota_exceeded else Returns (ok_response JNull)"
          "''u''" "[]" "ok_response JNull" 0]
    rotation_correctness [of 3 two_keys
          "\<lambda>n u p. if n = 0 then Returns quota_exceeded else Raises ReadTimeout"
          "''u''" "[]" "ok_response JNull" 0]
  by (simp add: two_keys_def rejects_def retried_def transient_def numeral_2_eq_2
        numeral_3_eq_3)

section \<open>The resolver\<close>

lemma details_none [simp]: "details None = Inr (JNull, JNull)"
  by (simp add: details_def bind_def)

lemma channel_title_failed:
  "fst (get nt channels_url [(''part'', JStr ''snippet''), (''id'', JStr cid), (''key'', JStr (api_key cl))] 3 cl)
     = Inr None \<Longrightarrow>
   fst (get_channel_title nt cl cid) = Inr JNull"
  by (cases "get nt channels_url [(''part'', JStr ''snippet''), (''id'', JStr cid), (''key'', JStr (api_key cl))] 3 cl")
     (simp add: get_channel_title_def)

text \<open>
  Claim C6 says that when the first search finds a live item and a later lookup fails, the
  result is \<open>None\<close> and never a partly filled descriptor. It is not so: here the search finds
  the broadcast \<open>v1\<close>, the details lookup and the channel-title lookup are both answered with
  status 500, so both calls return \<open>None\<close>, and \<open>get_live_now\<close> returns a descriptor with the
  broadcast id and nothing else.
\<close>

theorem live_partial_counterexample:
  "fst (get_live_now search_only two_keys ''UCchannel'')
   = Inr (Some \<lparr>channel_id = ''UCchannel'', channel_title = JNull, video_id = JStr ''v1'',
                video_title = JNull, scheduled_start_time = JNull\<rparr>)"
  by code_simp

text \<open>
  Claim C6, as amended. When the first search finds a live item with broadcast id \<open>vid\<close> and
  neither later call raises, \<open>get_live_now\<close> returns a descriptor for \<open>vid\<close>: the title and
  the start time are absent when the details lookup failed (returned \<open>None\<close>), the channel title
  is absent when the channel-title lookup failed. (Line 145 guards the failed details lookup
  with \<open>if r2 is not None else []\<close>, and the callers fall back on a label and on the channel
  id for the absent fields.)
\<close>

theorem live_lookup_failures:
  assumes search: "get nt search_url
            [(''part'', JStr ''snippet''), (''channelId'', JStr cid), (''eventType'', JStr ''live''),
             (''type'', JStr ''video''), (''maxResults'', JNum 1), (''order'', JStr ''date''),
             (''key'', JStr (api_key cl))] 3 cl = (Inr (Some r), cl1)"
    and items: "items_of r = Inr items" "truthy items" "first_video_id items = Inr vid"
    and lookup: "get nt videos_url
            [(''part'', JStr ''snippet,liveStreamingDetails''), (''id'', vid), (''key'', JStr (api_key cl1))]
            3 cl1 = (Inr r2, cl2)"
    and parsed: "details r2 = Inr (title, sched)"
    and chan: "get_channel_title nt cl2 cid = (Inr chan_title, cl3)"
  shows "get_live_now nt cl cid
         = (Inr (Some \<lparr>channel_id = cid, channel_title = chan_title, video_id = vid,
                      video_title = title, scheduled_start_time = sched\<rparr>), cl3)
       \<and> (r2 = None \<longrightarrow> title = JNull \<and> sched = JNull)
       \<and> (fst (get nt channels_url
                 [(''part'', JStr ''snippet''), (''id'', JStr cid), (''key'', JStr (api_key cl2))] 3 cl2) = Inr None
            \<longrightarrow> chan_title = JNull)"
proof -
  have a: "get_live_now nt cl cid
         = (Inr (Some \<lparr>channel_id = cid, channel_title = chan_title, video_id = vid,
                      video_title = title, scheduled_start_time = sched\<rparr>), cl3)"
    using assms by (simp add: get_live_now_def first_video_id_def)
  have b: "title = JNull \<and> sched = JNull" if "r2 = None"
    using that parsed by simp
  have c: "chan_title = JNull"
    if "fst (get nt channels_url
                 [(''part'', JStr ''snippet''), (''id'', JStr cid), (''key'', JStr (api_key cl2))] 3 cl2) = Inr None"
    using channel_title_failed [OF that] chan by simp
  from a b c show ?thesis by blast
qed

theorem live_lookup_failures_witness:
  "get_live_now no_channel_title two_keys ''UCchannel''
   = (Inr (Some \<lparr>channel_id = ''UCchannel'', channel_title = JNull, video_id = JStr ''v1'',
                video_title = JStr ''Concert'', scheduled_start_time = JNull\<rparr>),
      two_keys\<lparr>requests := 3, events := [Request 0, Request 0, Request 0]\<rparr>)"
proof -
  let ?cl = "\<lambda>n. two_keys\<lparr>requests := n, events := replicate n (Request 0)\<rparr>"
  have 1: "get no_channel_title search_url
            [(''part'', JStr ''snippet''), (''channelId'', JStr ''UCchannel''), (''eventType'', JStr ''live''),
             (''type'', JStr ''video''), (''maxResults'', JNum 1), (''order'', JStr ''date''),
             (''key'', JStr (api_key two_keys))] 3 two_keys
           = (Inr (Some (ok_response (search_hit ''v1''))), ?cl 1)"
    by code_simp
  have 2: "items_of (ok_response (search_hit ''v1''))
           = Inr (JArr [JObj [(''id'', JObj [(''videoId'', JStr ''v1'')])]])"
    by code_simp
  have 3: "truthy (JArr [JObj [(''id'', JObj [(''videoId'', JStr ''v1'')])]])" by simp
  have 4: "first_video_id (JArr [JObj [(''id'', JObj [(''videoId'', JStr ''v1'')])]]) = Inr (JStr ''v1'')"
    by code_simp
  have 5: "get no_channel_title videos_url
            [(''part'', JStr ''snippet,liveStreamingDetails''), (''id'', JStr ''v1''),
             (''key'', JStr (api_key (?cl 1)))] 3 (?cl 1)
           = (Inr (Some (ok_response (video_details ''Concert''))), ?cl 2)"
    by code_simp
  have 6: "details (Some (ok_response (video_details ''Concert''))) = Inr (JStr ''Concert'', JNull)"
    by code_simp
  have 7: "get_channel_title no_channel_title (?cl 2) ''UCchannel'' = (Inr JNull, ?cl 3)"
    by code_simp
  have 8: "?cl 3 = two_keys\<lparr>requests := 3, events := [Request 0, Request 0, Request 0]\<rparr>"
    by code_simp
  from live_lookup_failures [OF 1 2 3 4 5 6 7] show ?thesis
    unfolding 8 by blast
qed

text \<open>
  Claim C8 says that every input with the prefix \<open>UC\<close> and at least 20 characters is returned
  unchanged without a network call. It is not so for an input that ends in white space, which
  is stripped before the length is tested, nor for one that holds a channel URL, whose handle
  is taken instead of the input: both inputs below have the prefix and the length, and for
  both one request is made and the answer is not the input.
\<close>

theorem resolve_counterexample:
  "startswith ''UCaaaaaaaaaaaaaaaaa '' ''UC'' \<and> py_len ''UCaaaaaaaaaaaaaaaaa '' = 20
   \<and> resolve_channel_id (\<lambda>n u p. Returns (ok_response (channel_hit ''UCbbbbbbbbbbbbbbbbbbbbbb'')))
        two_keys ''UCaaaaaaaaaaaaaaaaa ''
      = (Inr (JStr ''UCbbbbbbbbbbbbbbbbbbbbbb''), two_keys\<lparr>requests := 1, events := [Request 0]\<rparr>)
   \<and> startswith ''UChttps://youtube.com/@name'' ''UC'' \<and> py_len ''UChttps://youtube.com/@name'' = 27
   \<and> resolve_channel_id (\<lambda>n u p. Returns server_error) two_keys ''UChttps://youtube.com/@name''
      = (Inr JNull, two_keys\<lparr>requests := 1, events := [Request 0]\<rparr>)"
  by code_simp

text \<open>
  Claim C8, as amended. An input with the prefix \<open>UC\<close> and at least 20 characters that has
  no white space at its ends and holds no channel URL is returned unchanged, and the client is
  left as it was: no request is made.
\<close>

theorem canonical_id_fast_path:
  assumes "startswith s ''UC''" and "20 \<le> py_len s"
    and "strip s = s" and "extract_channel_hint s = None"
  shows "resolve_channel_id nt cl s = (Inr (JStr s), cl)"
  using assms by (simp add: resolve_channel_id_def)

theorem canonical_id_fast_path_witness:
  "resolve_channel_id (\<lambda>n u p. Raises OtherTransportError) two_keys ''UC_x5XG1OV2P6uZZ5FSM9Ttw''
   = (Inr (JStr ''UC_x5XG1OV2P6uZZ5FSM9Ttw''), two_keys)"
proof -
  have 1: "startswith ''UC_x5XG1OV2P6uZZ5FSM9Ttw'' ''UC''" by code_simp
  have 2: "20 \<le> py_len ''UC_x5XG1OV2P6uZZ5FSM9Ttw''" by code_simp
  have 3: "strip ''UC_x5XG1OV2P6uZZ5FSM9Ttw'' = ''UC_x5XG1OV2P6uZZ5FSM9Ttw''" by code_simp
  have 4: "extract_channel_hint ''UC_x5XG1OV2P6uZZ5FSM9Ttw'' = None" by code_simp
  from canonical_id_fast_path [OF 1 2 3 4] show ?thesis .
qed

section \<open>One channel in one sweep\<close>

lemma sends_append [simp]: "sends c (xs @ ys) = sends c xs @ sends c ys"
  by (induction xs rule: sends.induct) auto

lemma polls_append [simp]: "polls c (xs @ ys) = polls c xs + polls c ys"
  by (simp add: polls_def)

lemma polls_single [simp]: "polls c' [Poll c] = (if c' = c then 1 else 0)"
  by (simp add: polls_def)

lemma polls_sends: "list_all is_send es \<Longrightarrow> polls c es = 0"
  by (induction es) (auto simp: polls_def elim: is_send.elims)

lemma fold_send_fields [simp]:
  "store (fold (send_message E c text) ts w) = store w"
  "yt (fold (send_message E c text) ts w) = yt w"
  "ticks (fold (send_message E c text) ts w) = ticks w"
  by (induction ts arbitrary: w) (simp_all add: send_message_def)

lemma fold_send_journal:
  "\<exists>es. journal (fold (send_message E c text) ts w) = journal w @ es
        \<and> list_all is_send es \<and> sends c es = map (\<lambda>chat. (chat, text)) ts
        \<and> (\<forall>c'. c' \<noteq> c \<longrightarrow> sends c' es = [])"
proof (induction ts arbitrary: w)
  case Nil
  show ?case by simp
next
  case (Cons t ts)
  obtain es where es: "journal (fold (send_message E c text) ts (send_message E c text t w))
      = journal (send_message E c text t w) @ es"
    "list_all is_send es" "sends c es = map (\<lambda>chat. (chat, text)) ts"
    "\<forall>c'. c' \<noteq> c \<longrightarrow> sends c' es = []"
    using Cons.IH by blast
  let ?e = "SendMessage c t text (deliver E (length (journal w)) t text)"
  have "journal (fold (send_message E c text) (t # ts) w) = journal w @ (?e # es)"
    using es(1) by (simp add: send_message_def)
  moreover have "list_all is_send (?e # es)" using es(2) by simp
  moreover have "sends c (?e # es) = map (\<lambda>chat. (chat, text)) (t # ts)" using es(3) by simp
  moreover have "\<forall>c'. c' \<noteq> c \<longrightarrow> sends c' (?e # es) = []" using es(4) by simp
  ultimately show ?case by blast
qed

lemma later_cases: "later now d = Inl OverflowError \<or> later now d = Inr (now + 1000000 * d)"
  by (simp add: later_def)

lemma commit_fst:
  "fst (commit E D w c live) = (if cooldown_fits E D w then None else Some OverflowError)"
  using later_cases [of "clock E (Suc (ticks w))" D]
  by (auto simp: commit_def Let_def cooldown_fits_def)

lemma commit_journal:
  "journal (snd (commit E D w c live)) = journal w @ commit_effects E D w c live"
  using later_cases [of "clock E (Suc (ticks w))" D]
  by (auto simp: commit_def commit_effects_def cooldown_fits_def Let_def isoformat_def)

lemma commit_store:
  "last_live (store (snd (commit E D w c live))) = (last_live (store w))(c \<mapsto> video_id live)"
  "last_live_at (store (snd (commit E D w c live)))
     = (last_live_at (store w))(c \<mapsto> Aware (clock E (ticks w)))"
  "cooldown_until (store (snd (commit E D w c live)))
     = (if D > 0 \<and> cooldown_fits E D w
        then (cooldown_until (store w))(c \<mapsto> Aware (clock E (Suc (ticks w)) + 1000000 * D))
        else cooldown_until (store w))"
  "subscriptions (store (snd (commit E D w c live))) = subscriptions (store w)"
  "destinations (store (snd (commit E D w c live))) = destinations (store w)"
  using later_cases [of "clock E (Suc (ticks w))" D]
  by (auto simp: commit_def Let_def isoformat_def set_last_live_def set_last_live_at_def
        set_cooldown_until_def cooldown_fits_def)

lemma commit_fields [simp]:
  "yt (snd (commit E D w c live)) = yt w"
  "ticks (snd (commit E D w c live)) = (if D > 0 then Suc (Suc (ticks w)) else Suc (ticks w))"
  using later_cases [of "clock E (Suc (ticks w))" D]
  by (auto simp: commit_def Let_def)

lemma commit_targets [simp]:
  "targets E (store (snd (commit E D w c live))) c' = targets E (store w) c'"
  by (simp add: targets_def all_subscribers_for_def list_destinations_def commit_store)

lemma notify_fields [simp]:
  "store (snd (notify E D w c live)) = store (snd (commit E D w c live))"
  "yt (snd (notify E D w c live)) = yt w"
  "ticks (snd (notify E D w c live)) = ticks (snd (commit E D w c live))"
proof -
  obtain x w3 where x: "commit E D w c live = (x, w3)"
    by (cases "commit E D w c live") auto
  have "yt w3 = yt w" using commit_fields(1) [of E D w c live] x by simp
  with x show "store (snd (notify E D w c live)) = store (snd (commit E D w c live))"
    "yt (snd (notify E D w c live)) = yt w"
    "ticks (snd (notify E D w c live)) = ticks (snd (commit E D w c live))"
    by (auto simp: notify_def split: option.splits sum.splits)
qed

lemma notify_fst:
  "fst (notify E D w c live)
   = (if cooldown_fits E D w
      then (case message_text E c live of Inl e \<Rightarrow> Some e | Inr text \<Rightarrow> None)
      else Some OverflowError)"
proof -
  obtain x w3 where x: "commit E D w c live = (x, w3)"
    by (cases "commit E D w c live") auto
  with commit_fst [of E D w c live] show ?thesis
    by (auto simp: notify_def split: option.splits sum.splits)
qed

lemma notify_journal:
  "\<exists>es. journal (snd (notify E D w c live)) = journal w @ commit_effects E D w c live @ es
        \<and> list_all is_send es
        \<and> (\<forall>c'. c' \<noteq> c \<longrightarrow> sends c' es = [])
        \<and> (if cooldown_fits E D w
            then (case message_text E c live of
                    Inl e \<Rightarrow> es = []
                  | Inr text \<Rightarrow> sends c es = map (\<lambda>chat. (chat, text)) (targets E (store w) c))
            else es = [])"
proof -
  obtain x w3 where x: "commit E D w c live = (x, w3)"
    by (cases "commit E D w c live") auto
  have j: "journal w3 = journal w @ commit_effects E D w c live"
    using commit_journal [of E D w c live] x by simp
  have t: "targets E (store w3) c = targets E (store w) c"
    using commit_targets [of E D w c live c] x by simp
  have f: "x = (if cooldown_fits E D w then None else Some OverflowError)"
    using commit_fst [of E D w c live] x by simp
  show ?thesis
  proof (cases "cooldown_fits E D w")
    case False
    with f x j show ?thesis by (simp add: notify_def)
  next
    case True
    show ?thesis
    proof (cases "message_text E c live")
      case (Inl e)
      with True f x j show ?thesis by (simp add: notify_def)
    next
      case (Inr msg)
      obtain es where "journal (fold (send_message E c msg) (targets E (store w) c) w3)
          = journal w3 @ es"
        "list_all is_send es"
        "sends c es = map (\<lambda>chat. (chat, msg)) (targets E (store w) c)"
        "\<forall>c'. c' \<noteq> c \<longrightarrow> sends c' es = []"
        using fold_send_journal by blast
      with True f x j t Inr show ?thesis by (simp add: notify_def)
    qed
  qed
qed

lemma sends_commit_effects [simp]: "sends c' (commit_effects E D w c live) = []"
  by (simp add: commit_effects_def)

lemma polls_commit_effects [simp]: "polls c' (commit_effects E D w c live) = 0"
  by (simp add: polls_def commit_effects_def)

lemma targets_set:
  assumes "set_order (recipients E)"
  shows "set (targets E st c) = set (all_subscribers_for st c) \<union> set (list_destinations st c)"
    and "distinct (targets E st c)"
  using assms by (simp_all add: targets_def set_order_def)

lemma message_text_strings:
  assumes "video_id live = JStr v"
    and "optional_string (channel_title live)" and "optional_string (video_title live)"
  shows "message_text E c live
       = Inr (escaped (shown (channel_title live) c) @ on_air
              @ escaped (shown (video_title live) live_label) @ [CHR 0x0A]
              @ ''https://www.youtube.com/watch?v='' @ v)"
proof -
  have e: "html_escape (py_or t (JStr d)) = Inr (escaped (shown t d))"
    if "optional_string t" for t d
    using that by (cases t) (simp_all add: py_or_def escaped_def)
  show ?thesis
    using assms by (simp add: message_text_def Let_def video_url_def bind_def e)
qed

lemma cooldown_gate_fields [simp]:
  "store (snd (cooldown_gate E w c)) = store w"
  "yt (snd (cooldown_gate E w c)) = yt w"
  "journal (snd (cooldown_gate E w c)) = journal w"
  by (auto simp: cooldown_gate_def Let_def split: option.splits sum.splits)


lemma py_eq_refl [simp]: "py_eq v v"
  by (simp add: py_eq_def)

lemma py_eq_null_string [simp]: "\<not> py_eq JNull (JStr v)"
  by (simp add: py_eq_def)

text \<open>The three ways through lines 34-59.\<close>

lemma poll_channel_cases:
  obtains (raised) e cl where "get_live_now (net_of E) (yt w) c = (Inl e, cl)"
      "poll_channel E D w c = (Some e, w\<lparr>journal := journal w @ [Poll c], yt := cl\<rparr>)"
  | (quiet) cl where
      "poll_channel E D w c = (None, w\<lparr>journal := journal w @ [Poll c], yt := cl\<rparr>)"
      "cl = snd (get_live_now (net_of E) (yt w) c)"
  | (fresh) live cl where "get_live_now (net_of E) (yt w) c = (Inr (Some live), cl)"
      "\<not> py_eq (get_last_live (store w) c) (video_id live)"
      "poll_channel E D w c
         = notify E D (w\<lparr>journal := journal w @ [Poll c], yt := cl\<rparr>) c live"
proof (cases "get_live_now (net_of E) (yt w) c")
  case (Pair r cl)
  show ?thesis
  proof (cases r)
    case (Inl e)
    with Pair show ?thesis by (intro raised [of e cl]) (simp_all add: poll_channel_def)
  next
    case (Inr lo)
    show ?thesis
    proof (cases lo)
      case None
      with Inr Pair show ?thesis by (intro quiet [of cl]) (simp_all add: poll_channel_def)
    next
      case (Some live)
      show ?thesis
      proof (cases "py_eq (get_last_live (store w) c) (video_id live)")
        case True
        with Some Inr Pair show ?thesis
          by (intro quiet [of cl]) (simp_all add: poll_channel_def)
      next
        case False
        with Some Inr Pair show ?thesis
          by (intro fresh [of live cl]) (simp_all add: poll_channel_def)
      qed
    qed
  qed
qed

lemma cooldown_fits_fields [simp]:
  "cooldown_fits E D (w\<lparr>journal := j\<rparr>) = cooldown_fits E D w"
  "cooldown_fits E D (w\<lparr>yt := cl\<rparr>) = cooldown_fits E D w"
  by (simp_all add: cooldown_fits_def)

text \<open>
  Claim C5 says that whenever a channel has no last broadcast stored and \<open>get_live_now\<close>
  returns one, the state is written and every recipient is sent one message. It is not so in
  two cases, in both of which the broadcast is recorded and nobody is notified. With a
  cooldown of \<open>3 * 10^11\<close> seconds the sum of line 46 lies beyond the year 9999 and raises
  \<open>OverflowError\<close> after the two writes of lines 40 and 41. With a broadcast title that is no
  string, here the number 5, \<open>html.escape\<close> raises \<open>AttributeError\<close> at line 50, after all
  three writes. The handler of line 60 drops the exception; the journal shows the call of
  \<open>get_live_now\<close> and the writes, and no send.
\<close>

theorem first_broadcast_counterexample:
  "get_last_live (store example_world) ''UCb'' = JNull
   \<and> process_channel_outcome (example_env (broadcast_net (JStr ''Rock & Roll''))) 300000000000
        example_world ''UCb''
      = (Some OverflowError,
         [Poll ''UCb'', SetLastLive ''UCb'' (JStr ''v1''), SetLastLiveAt ''UCb'' (Aware 1000)])
   \<and> process_channel_outcome (example_env (broadcast_net (JNum 5))) 3600 example_world ''UCb''
      = (Some AttributeError,
         [Poll ''UCb'', SetLastLive ''UCb'' (JStr ''v1''), SetLastLiveAt ''UCb'' (Aware 1000),
          SetCooldownUntil ''UCb'' (Aware 3600001001)])"
  by code_simp

text \<open>
  Claim C5, as amended. Let the cooldown gate let channel \<open>c\<close> through, let \<open>get_live_now\<close>
  return a broadcast with the id \<open>v\<close>, a string, and with titles that are strings or absent,
  let no last broadcast be stored for \<open>c\<close>, and let the cooldown be one that can be added to
  the clock. Then the pass through the loop body raises nothing and leaves the last broadcast
  of \<open>c\<close> at \<open>v\<close> and its time at the reading of the clock; with a positive cooldown of \<open>D\<close>
  seconds the cooldown of \<open>c\<close> ends \<open>D\<close> seconds after the next reading of the clock,
  otherwise no cooldown is written; and one message is sent to each recipient of \<open>c\<close>, the
  subscribers together with the destinations, each once, in the order in which the set is
  iterated. Its text is that of line 52: the channel title (the channel id when it is absent
  or empty), the broadcast title (the label of line 50 when it is absent or empty), both
  escaped for HTML, and the watch URL of \<open>v\<close>.
\<close>

theorem first_broadcast_notified:
  assumes gate: "cooldown_gate E w c = (False, w1)"
    and poll: "get_live_now (net_of E) (yt w) c = (Inr (Some live), cl)"
    and new: "get_last_live (store w) c = JNull"
    and vid: "video_id live = JStr v"
    and titles: "optional_string (channel_title live)" "optional_string (video_title live)"
    and fits: "cooldown_fits E D w1"
    and order: "set_order (recipients E)"
  shows "fst (process_channel E D w c) = None
       \<and> last_live (store (snd (process_channel E D w c))) c = Some (JStr v)
       \<and> last_live_at (store (snd (process_channel E D w c))) c
           = Some (Aware (clock E (ticks w1)))
       \<and> (0 < D \<longrightarrow> cooldown_until (store (snd (process_channel E D w c))) c
                       = Some (Aware (clock E (Suc (ticks w1)) + 1000000 * D)))
       \<and> (D \<le> 0 \<longrightarrow> cooldown_until (store (snd (process_channel E D w c)))
                       = cooldown_until (store w))
       \<and> sends c (journal (snd (process_channel E D w c)))
           = sends c (journal w)
             @ map (\<lambda>chat. (chat, escaped (shown (channel_title live) c) @ on_air
                                   @ escaped (shown (video_title live) live_label) @ [CHR 0x0A]
                                   @ ''https://www.youtube.com/watch?v='' @ v))
                 (targets E (store w) c)
       \<and> set (targets E (store w) c)
           = set (all_subscribers_for (store w) c) \<union> set (list_destinations (store w) c)
       \<and> distinct (targets E (store w) c)"
proof -
  let ?w0 = "w1\<lparr>journal := journal w1 @ [Poll c], yt := cl\<rparr>"
  let ?msg = "escaped (shown (channel_title live) c) @ on_air
              @ escaped (shown (video_title live) live_label) @ [CHR 0x0A]
              @ ''https://www.youtube.com/watch?v='' @ v"
  have w1: "store w1 = store w" "yt w1 = yt w" "journal w1 = journal w"
    using cooldown_gate_fields [of E w c] gate by simp_all
  have p: "process_channel E D w c = notify E D ?w0 c live"
    using gate poll new vid by (simp add: process_channel_def poll_channel_def w1)
  have f: "cooldown_fits E D ?w0"
    using fits by simp
  have m: "message_text E c live = Inr ?msg"
    using vid titles by (rule message_text_strings)
  obtain es where es:
    "journal (snd (notify E D ?w0 c live)) = journal ?w0 @ commit_effects E D ?w0 c live @ es"
    "sends c es = map (\<lambda>chat. (chat, ?msg)) (targets E (store ?w0) c)"
    using notify_journal [of E D ?w0 c live] f m by auto
  have 1: "fst (process_channel E D w c) = None"
    using f m by (simp add: p notify_fst)
  have 2: "last_live (store (snd (process_channel E D w c))) c = Some (JStr v)"
    by (simp add: p commit_store vid)
  have 3: "last_live_at (store (snd (process_channel E D w c))) c
           = Some (Aware (clock E (ticks w1)))"
    by (simp add: p commit_store)
  have 4: "cooldown_until (store (snd (process_channel E D w c))) c
             = Some (Aware (clock E (Suc (ticks w1)) + 1000000 * D))" if "0 < D"
    using that fits by (simp add: p commit_store)
  have 5: "cooldown_until (store (snd (process_channel E D w c))) = cooldown_until (store w)"
    if "D \<le> 0"
    using that by (simp add: p commit_store w1)
  have 6: "sends c (journal (snd (process_channel E D w c)))
           = sends c (journal w) @ map (\<lambda>chat. (chat, ?msg)) (targets E (store w) c)"
  proof -
    have "sends c es = map (\<lambda>chat. (chat, ?msg)) (targets E (store w) c)"
      using es(2) w1 by simp
    then show ?thesis
      by (simp only: p es(1)) (simp add: w1)
  qed
  from 1 2 3 4 5 6 targets_set [OF order, of "store w" c] show ?thesis by blast
qed

theorem first_broadcast_notified_witness:
  "fst (process_channel (example_env (broadcast_net (JStr ''Rock & Roll''))) 3600 example_world
        ''UCb'') = None
   \<and> last_live (store (snd (process_channel (example_env (broadcast_net (JStr ''Rock & Roll'')))
        3600 example_world ''UCb''))) ''UCb'' = Some (JStr ''v1'')
   \<and> last_live_at (store (snd (process_channel (example_env (broadcast_net (JStr ''Rock & Roll'')))
        3600 example_world ''UCb''))) ''UCb'' = Some (Aware 1000)
   \<and> cooldown_until (store (snd (process_channel (example_env (broadcast_net (JStr ''Rock & Roll'')))
        3600 example_world ''UCb''))) ''UCb'' = Some (Aware 3600001001)
   \<and> sends ''UCb'' (journal (snd (process_channel
        (example_env (broadcast_net (JStr ''Rock & Roll''))) 3600 example_world ''UCb'')))
      = [(8, ''UCb'' @ on_air @ ''Rock &amp; Roll'' @ [CHR 0x0A]
             @ ''https://www.youtube.com/watch?v=v1''),
         (-100, ''UCb'' @ on_air @ ''Rock &amp; Roll'' @ [CHR 0x0A]
             @ ''https://www.youtube.com/watch?v=v1''),
         (7, ''UCb'' @ on_air @ ''Rock &amp; Roll'' @ [CHR 0x0A]
             @ ''https://www.youtube.com/watch?v=v1'')]"
proof -
  let ?E = "example_env (broadcast_net (JStr ''Rock & Roll''))"
  have 1: "cooldown_gate ?E example_world ''UCb'' = (False, example_world)"
    by (simp add: cooldown_gate_def get_cooldown_until_def example_world_def example_store_def)
  have 2: "get_live_now (net_of ?E) (yt example_world) ''UCb''
           = (Inr (Some concert), two_keys\<lparr>requests := 3, events := [Request 0, Request 0, Request 0]\<rparr>)"
    by code_simp
  have 3: "get_last_live (store example_world) ''UCb'' = JNull"
    by (simp add: get_last_live_def example_world_def example_store_def)
  have 4: "video_id concert = JStr ''v1''"
    by (simp add: concert_def)
  have 5: "optional_string (channel_title concert)" "optional_string (video_title concert)"
    by (simp_all add: concert_def)
  have 6: "cooldown_fits ?E 3600 example_world"
    by (simp add: cooldown_fits_def later_def example_env_def example_world_def min_instant_def
          max_instant_def)
  have 7: "set_order (recipients ?E)"
    by (simp add: set_order_def example_env_def)
  have 8: "targets ?E (store example_world) ''UCb'' = [8, -100, 7]"
    by code_simp
  have 9: "clock ?E (ticks example_world) = 1000"
    "clock ?E (Suc (ticks example_world)) = 1001"
    "sends ''UCb'' (journal example_world) = []"
    "escaped (shown (channel_title concert) ''UCb'') = ''UCb''"
    "escaped (shown (video_title concert) live_label) = ''Rock &amp; Roll''"
    by (simp_all add: example_env_def example_world_def concert_def escaped_def
          html_escape_char_def)
  from first_broadcast_notified [OF 1 2 3 4 5 6 7] show ?thesis
    by (simp add: 8 9)
qed

section \<open>What a pass through the loop body leaves alone\<close>

lemma notify_polls [simp]:
  "polls c' (journal (snd (notify E D w c live))) = polls c' (journal w)"
proof -
  obtain es where
    "journal (snd (notify E D w c live)) = journal w @ commit_effects E D w c live @ es"
    "list_all is_send es"
    using notify_journal [of E D w c live] by blast
  then show ?thesis by (simp add: polls_sends)
qed



lemma poll_channel_polls:
  "polls c' (journal (snd (poll_channel E D w c)))
   = polls c' (journal w) + (if c' = c then 1 else 0)"
  by (rule poll_channel_cases [of E w c D]) auto




lemma gate_absent:
  "get_cooldown_until (store w) c = None \<Longrightarrow> cooldown_gate E w c = (False, w)"
  by (simp add: cooldown_gate_def)

lemma gate_not_aware:
  assumes "get_cooldown_until (store w) c = Some cd" and "\<not> aware cd"
  shows "fst (cooldown_gate E w c) = False"
  using assms by (cases cd) (auto simp: cooldown_gate_def Let_def)


text \<open>The loop body for \<open>c\<close> is the poll of \<open>c\<close> in the world the gate leaves, or nothing.\<close>

lemma process_channel_cases:
  obtains (skipped) w1 where "cooldown_gate E w c = (True, w1)"
      "process_channel E D w c = (None, w1)"
  | (polled) w1 where "cooldown_gate E w c = (False, w1)"
      "process_channel E D w c = poll_channel E D w1 c"
proof (cases "cooldown_gate E w c")
  case (Pair skip w1)
  then show ?thesis
    by (cases skip) (auto simp: process_channel_def intro: skipped polled)
qed







section \<open>The cooldown\<close>






text \<open>
  Claim C9. When the cooldown stored for channel \<open>c\<close> does not read as an instant with its
  offset (it is no timestamp at all, it is empty, or it lacks the offset, so that comparing
  it with the clock raises), the gate raises nothing and does not skip the channel: the pass
  through the loop body is the poll of \<open>c\<close>, in the world as it was but for the one reading of
  the clock the gate takes when the text is not empty, and \<open>get_live_now\<close> is called for \<open>c\<close>
  once. So the channel is handled as one without a cooldown is, in this sweep and in every
  later one that finds the value still there.
\<close>

theorem corrupt_cooldown_fails_open:
  assumes "cooldown_until (store w) c = Some cd" and "\<not> aware cd"
  shows "process_channel E D w c
         = poll_channel E D (if text_truthy cd then w\<lparr>ticks := Suc (ticks w)\<rparr> else w) c
       \<and> polls c (journal (snd (process_channel E D w c))) = Suc (polls c (journal w))
       \<and> process_channel E D (w\<lparr>store := (store w)\<lparr>cooldown_until := (cooldown_until (store w))(c := None)\<rparr>\<rparr>) c
         = poll_channel E D (w\<lparr>store := (store w)\<lparr>cooldown_until := (cooldown_until (store w))(c := None)\<rparr>\<rparr>) c"
proof -
  let ?w1 = "if text_truthy cd then w\<lparr>ticks := Suc (ticks w)\<rparr> else w"
  let ?w' = "w\<lparr>store := (store w)\<lparr>cooldown_until := (cooldown_until (store w))(c := None)\<rparr>\<rparr>"
  have g: "cooldown_gate E w c = (False, ?w1)"
    using assms by (cases cd) (auto simp: cooldown_gate_def get_cooldown_until_def Let_def)
  then have a: "process_channel E D w c = poll_channel E D ?w1 c"
    by (simp add: process_channel_def)
  have j: "journal ?w1 = journal w" by simp
  have b: "polls c (journal (snd (process_channel E D w c))) = Suc (polls c (journal w))"
    unfolding a using poll_channel_polls [of c E D ?w1 c] by (simp only: j) simp
  have "cooldown_gate E ?w' c = (False, ?w')"
    by (rule gate_absent) (simp add: get_cooldown_until_def)
  then have c: "process_channel E D ?w' c = poll_channel E D ?w' c"
    by (simp add: process_channel_def)
  from a b c show ?thesis by blast
qed

theorem corrupt_cooldown_fails_open_witness:
  "process_channel (example_env (broadcast_net (JStr ''Rock & Roll''))) 3600 corrupt_world ''UCb''
     = poll_channel (example_env (broadcast_net (JStr ''Rock & Roll''))) 3600
         (corrupt_world\<lparr>ticks := 1\<rparr>) ''UCb''
   \<and> polls ''UCb'' (journal (snd (process_channel
        (example_env (broadcast_net (JStr ''Rock & Roll''))) 3600 corrupt_world ''UCb''))) = 1
   \<and> map fst (sends ''UCb'' (journal (snd (process_channel
        (example_env (broadcast_net (JStr ''Rock & Roll''))) 3600 corrupt_world ''UCb''))))
      = [8, -100, 7]"
proof -
  let ?E = "example_env (broadcast_net (JStr ''Rock & Roll''))"
  have 1: "cooldown_until (store corrupt_world) ''UCb'' = Some (Unparseable ''tomorrow'')"
    "\<not> aware (Unparseable ''tomorrow'')" "text_truthy (Unparseable ''tomorrow'')"
    "ticks corrupt_world = 0" "polls ''UCb'' (journal corrupt_world) = 0"
    by (simp_all add: corrupt_world_def example_world_def polls_def)
  have 2: "map fst (sends ''UCb'' (journal (snd (process_channel ?E 3600 corrupt_world ''UCb''))))
      = [8, -100, 7]"
    by code_simp
  note t = corrupt_cooldown_fails_open [OF 1(1) 1(2), of ?E 3600]
  have a: "process_channel ?E 3600 corrupt_world ''UCb''
     = poll_channel ?E 3600 (corrupt_world\<lparr>ticks := 1\<rparr>) ''UCb''"
    using t [THEN conjunct1] 1(3,4) by simp
  have b: "polls ''UCb'' (journal (snd (process_channel ?E 3600 corrupt_world ''UCb''))) = 1"
    using t [THEN conjunct2, THEN conjunct1] 1(5) by simp
  from a b 2 show ?thesis by (intro conjI)
qed

section \<open>A failure in a sweep\<close>





section \<open>Recording and sending\<close>

lemma commit_deliver [simp]: "commit (E\<lparr>deliver := d\<rparr>) D w c live = commit E D w c live"
  by (simp add: commit_def Let_def)

text \<open>
  Claim C10 says that a broadcast that was recorded is never notified again in a later sweep,
  even if every send failed. It is not so: only the last broadcast of a channel is kept, and
  a broadcast is compared with that one alone. Here every send fails, there is no cooldown,
  and the search finds \<open>v1\<close> in the first sweep, \<open>v2\<close> in the second and \<open>v1\<close> again in the
  third: the one subscriber of the channel is sent a message for \<open>v1\<close> in the first sweep and
  another in the third.
\<close>

theorem renotified_counterexample:
  "sends ''UCa'' (journal (notifier_loop (silent_env flapping_net) 0 3 solo_world))
   = [(7, ''UCa'' @ on_air @ ''Concert'' @ [CHR 0x0A] @ ''https://www.youtube.com/watch?v=v1''),
      (7, ''UCa'' @ on_air @ ''Concert'' @ [CHR 0x0A] @ ''https://www.youtube.com/watch?v=v2''),
      (7, ''UCa'' @ on_air @ ''Concert'' @ [CHR 0x0A] @ ''https://www.youtube.com/watch?v=v1'')]"
  by code_simp

text \<open>
  Claim C10, as amended. When \<open>get_live_now\<close> returns a broadcast other than the one stored
  for channel \<open>c\<close>, the journal of the pass is the call of \<open>get_live_now\<close>, then the writes of
  lines 40-47, then sends and nothing but sends: every write is done before the first send.
  The store the pass leaves is the same whatever the transport does with the sends, and has
  the broadcast as the last one of \<open>c\<close>. And in any later world in which the broadcast is
  still the last one stored for \<open>c\<close>, a pass in which \<open>get_live_now\<close> returns it again sends
  nothing for \<open>c\<close> and leaves the store as it is.
\<close>

theorem recorded_before_sent:
  assumes "get_live_now (net_of E) (yt w) c = (Inr (Some live), cl)"
    and "\<not> py_eq (get_last_live (store w) c) (video_id live)"
  shows "(\<exists>es. journal (snd (poll_channel E D w c))
               = journal w @ [Poll c]
                 @ commit_effects E D (w\<lparr>journal := journal w @ [Poll c], yt := cl\<rparr>) c live @ es
             \<and> list_all is_send es)
       \<and> store (snd (poll_channel (E\<lparr>deliver := d\<rparr>) D w c)) = store (snd (poll_channel E D w c))
       \<and> last_live (store (snd (poll_channel E D w c))) c = Some (video_id live)
       \<and> (\<forall>w2 live2 cl2.
             last_live (store w2) c = Some (video_id live)
             \<and> get_live_now (net_of E) (yt w2) c = (Inr (Some live2), cl2)
             \<and> video_id live2 = video_id live
             \<longrightarrow> sends c (journal (snd (process_channel E D w2 c))) = sends c (journal w2)
                 \<and> store (snd (process_channel E D w2 c)) = store w2)"
proof -
  let ?w0 = "w\<lparr>journal := journal w @ [Poll c], yt := cl\<rparr>"
  have p: "poll_channel E D w c = notify E D ?w0 c live"
    using assms by (simp add: poll_channel_def)
  have p': "poll_channel (E\<lparr>deliver := d\<rparr>) D w c = notify (E\<lparr>deliver := d\<rparr>) D ?w0 c live"
    using assms by (simp add: poll_channel_def)
  obtain es where es:
    "journal (snd (notify E D ?w0 c live)) = journal ?w0 @ commit_effects E D ?w0 c live @ es"
    "list_all is_send es"
    using notify_journal [of E D ?w0 c live] by blast
  have 1: "\<exists>es. journal (snd (poll_channel E D w c))
               = journal w @ [Poll c] @ commit_effects E D ?w0 c live @ es
             \<and> list_all is_send es"
    using es by (simp add: p)
  have 2: "store (snd (poll_channel (E\<lparr>deliver := d\<rparr>) D w c)) = store (snd (poll_channel E D w c))"
    by (simp add: p p')
  have 3: "last_live (store (snd (poll_channel E D w c))) c = Some (video_id live)"
    by (simp add: p commit_store)
  have 4: "sends c (journal (snd (process_channel E D w2 c))) = sends c (journal w2)
         \<and> store (snd (process_channel E D w2 c)) = store w2"
    if a: "last_live (store w2) c = Some (video_id live)"
      and b: "get_live_now (net_of E) (yt w2) c = (Inr (Some live2), cl2)"
      and c: "video_id live2 = video_id live"
    for w2 live2 cl2
  proof (cases rule: process_channel_cases [of E w2 c D])
    case (skipped w1)
    then show ?thesis using cooldown_gate_fields [of E w2 c] by simp
  next
    case (polled w1)
    have w1: "store w1 = store w2" "yt w1 = yt w2" "journal w1 = journal w2"
      using cooldown_gate_fields [of E w2 c] polled by simp_all
    have "poll_channel E D w1 c = (None, w1\<lparr>journal := journal w1 @ [Poll c], yt := cl2\<rparr>)"
      using a b c by (simp add: poll_channel_def w1 get_last_live_def)
    with polled(2) w1 show ?thesis by simp
  qed
  from 1 2 3 4 show ?thesis by blast
qed

theorem recorded_before_sent_witness:
  "map is_send (journal (snd (poll_channel (silent_env (broadcast_net (JStr ''Rock & Roll''))) 0
        example_world ''UCb''))) = [False, False, False, True, True, True]
   \<and> last_live (store (snd (poll_channel (silent_env (broadcast_net (JStr ''Rock & Roll''))) 0
        example_world ''UCb''))) ''UCb'' = Some (JStr ''v1'')
   \<and> sends ''UCb'' (journal (snd (process_channel (silent_env (broadcast_net (JStr ''Rock & Roll'')))
        0 (snd (poll_channel (silent_env (broadcast_net (JStr ''Rock & Roll''))) 0 example_world
        ''UCb'')) ''UCb'')))
      = sends ''UCb'' (journal (snd (poll_channel (silent_env (broadcast_net (JStr ''Rock & Roll'')))
        0 example_world ''UCb'')))"
proof -
  let ?E = "silent_env (broadcast_net (JStr ''Rock & Roll''))"
  let ?cl = "two_keys\<lparr>requests := 3, events := [Request 0, Request 0, Request 0]\<rparr>"
  let ?w2 = "snd (poll_channel ?E 0 example_world ''UCb'')"
  have 1: "get_live_now (net_of ?E) (yt example_world) ''UCb'' = (Inr (Some concert), ?cl)"
    by code_simp
  have 2: "\<not> py_eq (get_last_live (store example_world) ''UCb'') (video_id concert)"
    by (simp add: get_last_live_def example_world_def example_store_def concert_def)
  have 3: "video_id concert = JStr ''v1''"
    by (simp add: concert_def)
  have 4: "map is_send (journal ?w2) = [False, False, False, True, True, True]"
    by code_simp
  have "yt ?w2 = ?cl"
    using 1 2 by (simp add: poll_channel_def)
  moreover have "get_live_now (net_of ?E) ?cl ''UCb''
      = (Inr (Some concert),
         two_keys\<lparr>requests := 6,
                   events := [Request 0, Request 0, Request 0, Request 0, Request 0, Request 0]\<rparr>)"
    by code_simp
  ultimately have 5: "get_live_now (net_of ?E) (yt ?w2) ''UCb''
      = (Inr (Some concert),
         two_keys\<lparr>requests := 6,
                   events := [Request 0, Request 0, Request 0, Request 0, Request 0, Request 0]\<rparr>)"
    by simp
  note t = recorded_before_sent [OF 1 2, of 0 "\<lambda>n chat text. True"]
  have a: "last_live (store ?w2) ''UCb'' = Some (JStr ''v1'')"
    using t 3 by simp
  have b: "last_live (store ?w2) ''UCb'' = Some (video_id concert)"
    using t by simp
  have c: "sends ''UCb'' (journal (snd (process_channel ?E 0 ?w2 ''UCb'')))
         = sends ''UCb'' (journal ?w2)"
    using t b 5 by blast
  from 4 a c show ?thesis by (intro conjI)
qed

section \<open>The same broadcast in consecutive sweeps\<close>







lemma notifications_append:
  "notifications c chat (xs @ ys) = notifications c chat xs + notifications c chat ys"
  by (simp add: notifications_def)











end
